theory Spec2Isabelle
  imports Main "HOL-Library.Word"
begin

unbundle bit_operations_syntax

section \<open>Constants of minivsfs.h\<close>

type_synonym byte = "8 word"

definition BS :: nat where "BS = 4096"
definition INODE_SIZE :: nat where "INODE_SIZE = 128"
definition ROOT_INO :: "32 word" where "ROOT_INO = 1"
definition DIRECT_MAX :: nat where "DIRECT_MAX = 12"
definition MAGIC_NUMBER :: "32 word" where "MAGIC_NUMBER = 0x4D565346"
definition VERSION :: "32 word" where "VERSION = 1"
definition PROJ_ID :: "32 word" where "PROJ_ID = 7"
definition FILE_TYPE_REGULAR :: byte where "FILE_TYPE_REGULAR = 1"
definition FILE_TYPE_DIRECTORY :: byte where "FILE_TYPE_DIRECTORY = 2"
definition MODE_FILE :: "16 word" where "MODE_FILE = 0x8000"
definition MODE_DIR :: "16 word" where "MODE_DIR = 0x4000"
definition MIN_SIZE_KIB :: "32 word" where "MIN_SIZE_KIB = 180"
definition MAX_SIZE_KIB :: "32 word" where "MAX_SIZE_KIB = 4096"
definition MIN_INODES :: "32 word" where "MIN_INODES = 128"
definition MAX_INODES :: "32 word" where "MAX_INODES = 512"

section \<open>Bitmap allocator (minivsfs_utils.c)\<close>

text \<open>
  The inner loop of \<open>find_free_bit\<close>: \<open>bit_idx\<close> runs over the given indices (0..7) of
  the byte \<open>b = bitmap[byte_idx]\<close>.  \<open>byte_idx * 8 + bit_idx\<close> is computed in
  \<open>uint32_t\<close>, converted to \<open>int\<close> (two's complement, \<open>sint\<close>), and compared with
  \<open>max_bits\<close> as \<open>uint32_t\<close> again.  \<open>None\<close> means that the loop ran to its end.
\<close>

fun find_free_bit_in_byte :: "byte \<Rightarrow> 32 word \<Rightarrow> 32 word \<Rightarrow> nat list \<Rightarrow> int option" where
  "find_free_bit_in_byte b byte_idx max_bits [] = None"
| "find_free_bit_in_byte b byte_idx max_bits (bit_idx # rest) =
     (if b AND push_bit bit_idx 1 = 0 \<and> byte_idx * 8 + of_nat bit_idx < max_bits
      then Some (sint (byte_idx * 8 + of_nat bit_idx))
      else find_free_bit_in_byte b byte_idx max_bits rest)"

text \<open>
  The outer loop over \<open>byte_idx\<close>.  A read of \<open>bitmap[byte_idx]\<close> past the end of the
  array is undefined behaviour in C; the model returns \<open>None\<close> there.  \<open>Some (-1)\<close> is
  the "not found" return value.
\<close>

fun find_free_bit_from :: "byte list \<Rightarrow> 32 word \<Rightarrow> nat list \<Rightarrow> int option" where
  "find_free_bit_from bitmap max_bits [] = Some (- 1)"
| "find_free_bit_from bitmap max_bits (byte_idx # rest) =
     (if byte_idx < length bitmap then
        (if bitmap ! byte_idx \<noteq> 0xFF then
           (case find_free_bit_in_byte (bitmap ! byte_idx) (of_nat byte_idx) max_bits [0..<8] of
              Some r \<Rightarrow> Some r
            | None \<Rightarrow> find_free_bit_from bitmap max_bits rest)
         else find_free_bit_from bitmap max_bits rest)
      else None)"

definition find_free_bit :: "byte list \<Rightarrow> 32 word \<Rightarrow> int option" where
  "find_free_bit bitmap max_bits =
     find_free_bit_from bitmap max_bits [0..<unat ((max_bits + 7) div 8)]"

text \<open>
  \<open>set_bit\<close>: \<open>bitmap[bit_number / 8] |= (1 << (bit_number % 8))\<close>.  A negative bit number
  (a negative shift) or a byte index past the array is undefined behaviour: \<open>None\<close>.
\<close>

definition set_bit :: "byte list \<Rightarrow> int \<Rightarrow> byte list option" where
  "set_bit bitmap bit_number =
     (if bit_number < 0 \<or> length bitmap \<le> nat (bit_number div 8) then None
      else Some (bitmap[nat (bit_number div 8) :=
                   bitmap ! nat (bit_number div 8) OR push_bit (nat (bit_number mod 8)) 1]))"

text \<open>Bit \<open>i\<close> of a bitmap, least significant bit first within each byte.\<close>

definition bitmap_bit :: "byte list \<Rightarrow> nat \<Rightarrow> bool" where
  "bitmap_bit bitmap i = bit (bitmap ! (i div 8)) (i mod 8)"

section \<open>Layout calculator (mkfs_builder.c)\<close>

datatype error =
    Image_Required | Size_Out_Of_Range | Inodes_Out_Of_Range | Size_Not_Multiple_Of_4
  | Too_Many_Inodes | Not_Enough_Space | Need_One_Data_Block
  | Missing_Value | Unknown_Argument
  | Input_Required | Output_Required | File_Required | Filename_Too_Long
  | Cannot_Open_File | Cannot_Get_Size | File_Is_Empty | File_Too_Large
  | Cannot_Open_Input | Cannot_Read_Superblock | Invalid_Magic
  | Cannot_Read_Inode_Bitmap | Cannot_Read_Data_Bitmap
  | No_Free_Inodes | Not_Enough_Data_Blocks
  | Cannot_Read_Inode_Table | Cannot_Read_Data_Region | No_Free_Directory_Entries
  | Undefined_Behaviour

record cli_args_builder_t =
  image_name :: "string option"
  size_kib :: "32 word"
  inode_count :: "32 word"

record fs_layout_t =
  total_blocks :: "64 word"
  inode_table_blocks :: "64 word"
  data_region_blocks :: "64 word"
  superblock_start :: "64 word"
  inode_bitmap_start :: "64 word"
  data_bitmap_start :: "64 word"
  inode_table_start :: "64 word"
  data_region_start :: "64 word"

text \<open>
  The checks of the builder's \<open>parse_cli_args\<close> that follow its scan of \<open>argv\<close>
  (lines 38 to 71), in the source's order.  \<open>size_kib * 1024\<close> is a \<open>uint32_t\<close> product,
  widened to 64 bits afterwards.
\<close>

definition validate_builder_args :: "cli_args_builder_t \<Rightarrow> error option" where
  "validate_builder_args args =
     (if image_name args = None then Some Image_Required
      else if size_kib args < MIN_SIZE_KIB \<or> size_kib args > MAX_SIZE_KIB
        then Some Size_Out_Of_Range
      else if cli_args_builder_t.inode_count args < MIN_INODES
              \<or> cli_args_builder_t.inode_count args > MAX_INODES
        then Some Inodes_Out_Of_Range
      else if size_kib args mod 4 \<noteq> 0 then Some Size_Not_Multiple_Of_4
      else
        let total_blocks = (ucast (size_kib args * 1024) :: 64 word) div of_nat BS;
            inodes_per_block = (of_nat BS div of_nat INODE_SIZE :: 32 word);
            max_inodes = total_blocks * ucast inodes_per_block
        in if (ucast (cli_args_builder_t.inode_count args) :: 64 word) > max_inodes
           then Some Too_Many_Inodes else None)"

text \<open>
  \<open>calculate_layout\<close>.  \<open>data_region_blocks\<close> is a \<open>uint64_t\<close>: the subtraction wraps
  around, and the test \<open>data_region_blocks <= 0\<close> is an unsigned comparison.
\<close>

definition calculate_layout :: "cli_args_builder_t \<Rightarrow> error + fs_layout_t" where
  "calculate_layout args =
     (let total_blocks = (ucast (size_kib args * 1024) :: 64 word) div of_nat BS;
          inodes_per_block = (of_nat BS div of_nat INODE_SIZE :: 32 word);
          inode_table_blocks =
            (ucast ((cli_args_builder_t.inode_count args + inodes_per_block - 1)
                      div inodes_per_block) :: 64 word);
          data_region_start = 3 + inode_table_blocks;
          data_region_blocks = total_blocks - data_region_start;
          layout = \<lparr> total_blocks = total_blocks,
                     inode_table_blocks = inode_table_blocks,
                     data_region_blocks = data_region_blocks,
                     superblock_start = 0,
                     inode_bitmap_start = 1,
                     data_bitmap_start = 2,
                     inode_table_start = 3,
                     data_region_start = data_region_start \<rparr>
      in if data_region_blocks \<le> 0 then Inl Not_Enough_Space
         else if data_region_blocks < 1 then Inl Need_One_Data_Block
         else Inr layout)"


definition example_builder_args :: cli_args_builder_t where
  "example_builder_args = \<lparr> image_name = Some ''fs.img'', size_kib = 180, inode_count = 128 \<rparr>"

definition shortfall_builder_args :: cli_args_builder_t where
  "shortfall_builder_args = \<lparr> image_name = Some ''fs.img'', size_kib = 8, inode_count = 128 \<rparr>"

section \<open>Checksum engine (minivsfs_utils.c)\<close>

text \<open>
  One round of the inner loop of \<open>crc32_init\<close>:
  \<open>c = (c & 1) ? (0xEDB88320u ^ (c >> 1)) : (c >> 1)\<close>.
\<close>

definition crc32_round :: "32 word \<Rightarrow> 32 word" where
  "crc32_round c = (if c AND 1 \<noteq> 0 then 0xEDB88320 XOR drop_bit 1 c else drop_bit 1 c)"

text \<open>The table entry that \<open>crc32_init\<close> stores at index \<open>i\<close>: eight rounds from \<open>i\<close>.\<close>

definition crc32_entry :: "32 word \<Rightarrow> 32 word" where
  "crc32_entry i = (crc32_round ^^ 8) i"

definition CRC32_TAB :: "32 word list" where
  "CRC32_TAB = map (\<lambda>i. crc32_entry (of_nat i)) [0..<256]"

text \<open>
  \<open>crc32(data, n)\<close>, on the list of the \<open>n\<close> bytes that the loop reads:
  \<open>c = CRC32_TAB[(c ^ p[i]) & 0xFF] ^ (c >> 8)\<close> from \<open>0xFFFFFFFF\<close>, complemented at the
  end.
\<close>

definition crc32_step :: "byte \<Rightarrow> 32 word \<Rightarrow> 32 word" where
  "crc32_step p c = CRC32_TAB ! unat ((c XOR ucast p) AND 0xFF) XOR drop_bit 8 c"

definition crc32 :: "byte list \<Rightarrow> 32 word" where
  "crc32 data = fold crc32_step data 0xFFFFFFFF XOR 0xFFFFFFFF"

section \<open>Packed records (minivsfs.h)\<close>

text \<open>
  The structures are packed (\<open>#pragma pack(1)\<close>) and are copied to and from the image with
  \<open>memcpy\<close> and pointer casts, so their byte image is the concatenation of their fields;
  integers are stored least significant byte first (the byte order of the machines the
  tool is built for).
\<close>

definition le_bytes :: "nat \<Rightarrow> 'a::len word \<Rightarrow> byte list" where
  "le_bytes n w = map (\<lambda>i. ucast (drop_bit (8 * i) w)) [0..<n]"

fun le_word :: "byte list \<Rightarrow> 'a::len word" where
  "le_word [] = 0"
| "le_word (b # bs) = ucast b OR push_bit 8 (le_word bs)"

definition slice :: "nat \<Rightarrow> nat \<Rightarrow> 'a list \<Rightarrow> 'a list" where
  "slice off n xs = take n (drop off xs)"

text \<open>An array field of fixed length \<open>n\<close>: the list, cut or zero-filled to \<open>n\<close> elements.\<close>

definition fixed :: "nat \<Rightarrow> 'a::zero list \<Rightarrow> 'a list" where
  "fixed n xs = take n (xs @ replicate n 0)"

record superblock_t =
  magic :: "32 word"
  version :: "32 word"
  block_size :: "32 word"
  total_blocks :: "64 word"
  inode_count :: "64 word"
  inode_bitmap_start :: "64 word"
  inode_bitmap_blocks :: "64 word"
  data_bitmap_start :: "64 word"
  data_bitmap_blocks :: "64 word"
  inode_table_start :: "64 word"
  inode_table_blocks :: "64 word"
  data_region_start :: "64 word"
  data_region_blocks :: "64 word"
  root_inode :: "64 word"
  mtime_epoch :: "64 word"
  flags :: "32 word"
  checksum :: "32 word"

record inode_t =
  mode :: "16 word"
  links :: "16 word"
  uid :: "32 word"
  gid :: "32 word"
  size_bytes :: "64 word"
  atime :: "64 word"
  mtime :: "64 word"
  ctime :: "64 word"
  direct :: "32 word list"
  reserved_0 :: "32 word"
  reserved_1 :: "32 word"
  reserved_2 :: "32 word"
  proj_id :: "32 word"
  uid16_gid16 :: "32 word"
  xattr_ptr :: "64 word"
  inode_crc :: "64 word"

record dirent64_t =
  inode_no :: "32 word"
  type :: byte
  name :: "byte list"
  checksum :: byte

definition superblock_bytes :: "superblock_t \<Rightarrow> byte list" where
  "superblock_bytes sb =
     le_bytes 4 (magic sb) @ le_bytes 4 (version sb) @ le_bytes 4 (block_size sb)
     @ le_bytes 8 (superblock_t.total_blocks sb) @ le_bytes 8 (superblock_t.inode_count sb)
     @ le_bytes 8 (superblock_t.inode_bitmap_start sb) @ le_bytes 8 (inode_bitmap_blocks sb)
     @ le_bytes 8 (superblock_t.data_bitmap_start sb) @ le_bytes 8 (data_bitmap_blocks sb)
     @ le_bytes 8 (superblock_t.inode_table_start sb)
     @ le_bytes 8 (superblock_t.inode_table_blocks sb)
     @ le_bytes 8 (superblock_t.data_region_start sb)
     @ le_bytes 8 (superblock_t.data_region_blocks sb)
     @ le_bytes 8 (root_inode sb) @ le_bytes 8 (mtime_epoch sb)
     @ le_bytes 4 (flags sb) @ le_bytes 4 (superblock_t.checksum sb)"

definition superblock_of_bytes :: "byte list \<Rightarrow> superblock_t" where
  "superblock_of_bytes bs =
     \<lparr> magic = le_word (slice 0 4 bs), version = le_word (slice 4 4 bs),
       block_size = le_word (slice 8 4 bs),
       total_blocks = le_word (slice 12 8 bs), inode_count = le_word (slice 20 8 bs),
       inode_bitmap_start = le_word (slice 28 8 bs),
       inode_bitmap_blocks = le_word (slice 36 8 bs),
       data_bitmap_start = le_word (slice 44 8 bs),
       data_bitmap_blocks = le_word (slice 52 8 bs),
       inode_table_start = le_word (slice 60 8 bs),
       inode_table_blocks = le_word (slice 68 8 bs),
       data_region_start = le_word (slice 76 8 bs),
       data_region_blocks = le_word (slice 84 8 bs),
       root_inode = le_word (slice 92 8 bs), mtime_epoch = le_word (slice 100 8 bs),
       flags = le_word (slice 108 4 bs), checksum = le_word (slice 112 4 bs) \<rparr>"

definition inode_bytes :: "inode_t \<Rightarrow> byte list" where
  "inode_bytes ino =
     le_bytes 2 (mode ino) @ le_bytes 2 (links ino) @ le_bytes 4 (uid ino) @ le_bytes 4 (gid ino)
     @ le_bytes 8 (size_bytes ino) @ le_bytes 8 (atime ino) @ le_bytes 8 (mtime ino)
     @ le_bytes 8 (ctime ino)
     @ concat (map (le_bytes 4) (fixed DIRECT_MAX (direct ino)))
     @ le_bytes 4 (reserved_0 ino) @ le_bytes 4 (reserved_1 ino) @ le_bytes 4 (reserved_2 ino)
     @ le_bytes 4 (proj_id ino) @ le_bytes 4 (uid16_gid16 ino) @ le_bytes 8 (xattr_ptr ino)
     @ le_bytes 8 (inode_crc ino)"

definition inode_of_bytes :: "byte list \<Rightarrow> inode_t" where
  "inode_of_bytes bs =
     \<lparr> mode = le_word (slice 0 2 bs), links = le_word (slice 2 2 bs),
       uid = le_word (slice 4 4 bs), gid = le_word (slice 8 4 bs),
       size_bytes = le_word (slice 12 8 bs), atime = le_word (slice 20 8 bs),
       mtime = le_word (slice 28 8 bs), ctime = le_word (slice 36 8 bs),
       direct = map (\<lambda>i. le_word (slice (44 + 4 * i) 4 bs)) [0..<DIRECT_MAX],
       reserved_0 = le_word (slice 92 4 bs), reserved_1 = le_word (slice 96 4 bs),
       reserved_2 = le_word (slice 100 4 bs), proj_id = le_word (slice 104 4 bs),
       uid16_gid16 = le_word (slice 108 4 bs), xattr_ptr = le_word (slice 112 8 bs),
       inode_crc = le_word (slice 120 8 bs) \<rparr>"

definition dirent_bytes :: "dirent64_t \<Rightarrow> byte list" where
  "dirent_bytes de =
     le_bytes 4 (inode_no de) @ [type de] @ fixed 58 (name de) @ [dirent64_t.checksum de]"

definition dirent_of_bytes :: "byte list \<Rightarrow> dirent64_t" where
  "dirent_of_bytes bs =
     \<lparr> inode_no = le_word (slice 0 4 bs), type = bs ! 4, name = slice 5 58 bs,
       checksum = bs ! 63 \<rparr>"

subsection \<open>Checksum finalizers\<close>

text \<open>
  \<open>superblock_crc_finalize\<close> passes the address of the 116-byte \<open>superblock_t\<close> to
  \<open>crc32\<close> with a length of \<open>BS - 4\<close> bytes, so the loop also reads the \<open>BS - 4 - 116\<close>
  bytes that follow the structure in memory.  \<open>adjacent\<close> gives these bytes by their
  offset from the end of the structure.
\<close>

definition superblock_crc_finalize ::
  "superblock_t \<Rightarrow> (nat \<Rightarrow> byte) \<Rightarrow> superblock_t \<times> 32 word" where
  "superblock_crc_finalize sb adjacent =
     (let sb0 = sb\<lparr>superblock_t.checksum := 0\<rparr>;
          s = crc32 (take (BS - 4)
                 (superblock_bytes sb0 @ map adjacent [0..<BS - 4 - length (superblock_bytes sb0)]))
      in (sb0\<lparr>superblock_t.checksum := s\<rparr>, s))"

definition inode_crc_finalize :: "inode_t \<Rightarrow> inode_t" where
  "inode_crc_finalize ino =
     (let tmp = inode_bytes ino;
          tmp = take 120 tmp @ replicate 8 0;
          c = crc32 (take 120 tmp)
      in ino\<lparr>inode_crc := ucast c\<rparr>)"

definition dirent_checksum_finalize :: "dirent64_t \<Rightarrow> dirent64_t" where
  "dirent_checksum_finalize de =
     (let p = dirent_bytes de;
          x = fold (\<lambda>i x. x XOR p ! i) [0..<63] 0
      in de\<lparr>dirent64_t.checksum := x\<rparr>)"

text \<open>The block that both programs write as block 0: the record, zero-filled to \<open>BS\<close>.\<close>

definition superblock_block :: "superblock_t \<Rightarrow> byte list" where
  "superblock_block sb = superblock_bytes sb @ replicate (BS - length (superblock_bytes sb)) 0"

section \<open>Image builder (mkfs_builder.c)\<close>

text \<open>
  The scan of \<open>argv\<close> in the builder's \<open>parse_cli_args\<close> (lines 10 to 36); \<open>argv[0]\<close> is
  skipped by the caller.  \<open>atoi\<close> belongs to the C library and is a parameter here; its
  \<open>int\<close> result is converted to \<open>uint32_t\<close>.
\<close>

fun scan_builder_argv ::
  "(string \<Rightarrow> int) \<Rightarrow> string list \<Rightarrow> cli_args_builder_t \<Rightarrow> error + cli_args_builder_t" where
  "scan_builder_argv atoi [] args = Inr args"
| "scan_builder_argv atoi [a] args =
     (if a = ''--image'' \<or> a = ''--size-kib'' \<or> a = ''--inodes'' then Inl Missing_Value
      else Inl Unknown_Argument)"
| "scan_builder_argv atoi (a # v # rest) args =
     (if a = ''--image'' then scan_builder_argv atoi rest (args\<lparr>image_name := Some v\<rparr>)
      else if a = ''--size-kib''
        then scan_builder_argv atoi rest (args\<lparr>size_kib := word_of_int (atoi v)\<rparr>)
      else if a = ''--inodes''
        then scan_builder_argv atoi rest
               (args\<lparr>cli_args_builder_t.inode_count := word_of_int (atoi v)\<rparr>)
      else Inl Unknown_Argument)"

definition parse_cli_args_builder ::
  "(string \<Rightarrow> int) \<Rightarrow> string list \<Rightarrow> error + cli_args_builder_t" where
  "parse_cli_args_builder atoi argv =
     (case scan_builder_argv atoi (tl argv)
             \<lparr>image_name = None, size_kib = 0, inode_count = 0\<rparr> of
        Inl e \<Rightarrow> Inl e
      | Inr args \<Rightarrow>
          (case validate_builder_args args of Some e \<Rightarrow> Inl e | None \<Rightarrow> Inr args))"

text \<open>\<open>create_superblock\<close>; \<open>now\<close> is the value of \<open>time(NULL)\<close>.\<close>

definition create_superblock ::
  "cli_args_builder_t \<Rightarrow> fs_layout_t \<Rightarrow> 64 word \<Rightarrow> (nat \<Rightarrow> byte) \<Rightarrow> superblock_t" where
  "create_superblock args layout now adjacent =
     fst (superblock_crc_finalize
       \<lparr> magic = MAGIC_NUMBER, version = VERSION, block_size = of_nat BS,
         total_blocks = fs_layout_t.total_blocks layout,
         inode_count = ucast (cli_args_builder_t.inode_count args),
         inode_bitmap_start = fs_layout_t.inode_bitmap_start layout,
         inode_bitmap_blocks = 1,
         data_bitmap_start = fs_layout_t.data_bitmap_start layout,
         data_bitmap_blocks = 1,
         inode_table_start = fs_layout_t.inode_table_start layout,
         inode_table_blocks = fs_layout_t.inode_table_blocks layout,
         data_region_start = fs_layout_t.data_region_start layout,
         data_region_blocks = fs_layout_t.data_region_blocks layout,
         root_inode = ucast ROOT_INO, mtime_epoch = now, flags = 0, checksum = 0 \<rparr>
       adjacent)"

definition dirent_size :: nat where "dirent_size = 64"

definition create_root_inode :: "32 word \<Rightarrow> 64 word \<Rightarrow> inode_t" where
  "create_root_inode first_data_block now =
     inode_crc_finalize
       \<lparr> mode = MODE_DIR, links = 2, uid = 0, gid = 0,
         size_bytes = 2 * of_nat dirent_size,
         atime = now, mtime = now, ctime = now,
         direct = first_data_block # replicate (DIRECT_MAX - 1) 0,
         reserved_0 = 0, reserved_1 = 0, reserved_2 = 0, proj_id = PROJ_ID,
         uid16_gid16 = 0, xattr_ptr = 0, inode_crc = 0 \<rparr>"

text \<open>Characters as bytes of a C string.\<close>

definition c_bytes :: "string \<Rightarrow> byte list" where
  "c_bytes s = map of_char s"

definition create_root_directory_entries :: "dirent64_t \<times> dirent64_t" where
  "create_root_directory_entries =
     (dirent_checksum_finalize
        \<lparr> inode_no = ROOT_INO, type = FILE_TYPE_DIRECTORY,
          name = fixed 58 (c_bytes ''.''), checksum = 0 \<rparr>,
      dirent_checksum_finalize
        \<lparr> inode_no = ROOT_INO, type = FILE_TYPE_DIRECTORY,
          name = fixed 58 (c_bytes ''..''), checksum = 0 \<rparr>)"

text \<open>
  \<open>initialize_bitmaps\<close>: both blocks zeroed, then bit 0 of each set.  The two count
  parameters are unused in the source.
\<close>

definition initialize_bitmaps :: "32 word \<Rightarrow> 64 word \<Rightarrow> byte list \<times> byte list" where
  "initialize_bitmaps n_inodes n_data_blocks =
     (let inode_bitmap = replicate BS (0 :: byte);
          data_bitmap = replicate BS (0 :: byte)
      in (inode_bitmap[0 := inode_bitmap ! 0 OR 0x01], data_bitmap[0 := data_bitmap ! 0 OR 0x01]))"

text \<open>
  The blocks that \<open>main\<close> writes, in order (lines 211 to 278).  \<open>now_sb\<close> and \<open>now_root\<close>
  are the results of the two calls of \<open>time(NULL)\<close>, in \<open>create_superblock\<close> and in
  \<open>create_root_inode\<close>.
\<close>

definition inode_table_block :: "fs_layout_t \<Rightarrow> 64 word \<Rightarrow> nat \<Rightarrow> byte list" where
  "inode_table_block layout now_root block =
     (if block = 0
      then inode_bytes (create_root_inode (ucast (fs_layout_t.data_region_start layout)) now_root)
           @ replicate (BS - INODE_SIZE) 0
      else replicate BS 0)"

definition data_region_block :: "nat \<Rightarrow> byte list" where
  "data_region_block block =
     (if block = 0
      then dirent_bytes (fst create_root_directory_entries)
           @ dirent_bytes (snd create_root_directory_entries)
           @ replicate (BS - 2 * dirent_size) 0
      else replicate BS 0)"

definition build_image ::
  "cli_args_builder_t \<Rightarrow> fs_layout_t \<Rightarrow> 64 word \<Rightarrow> 64 word \<Rightarrow> (nat \<Rightarrow> byte) \<Rightarrow> byte list" where
  "build_image args layout now_sb now_root adjacent =
     superblock_block (create_superblock args layout now_sb adjacent)
     @ fst (initialize_bitmaps (cli_args_builder_t.inode_count args)
              (fs_layout_t.data_region_blocks layout))
     @ snd (initialize_bitmaps (cli_args_builder_t.inode_count args)
              (fs_layout_t.data_region_blocks layout))
     @ concat (map (inode_table_block layout now_root)
         [0..<unat (fs_layout_t.inode_table_blocks layout)])
     @ concat (map data_region_block [0..<unat (fs_layout_t.data_region_blocks layout)])"

text \<open>
  Files of the host by path.  \<open>mkfs_builder\<close> is \<open>main\<close>: the result is the diagnostic
  (exit status 1) or success (exit status 0), and the files afterwards.  Failures of
  \<open>fopen\<close> and \<open>fwrite\<close> on the destination are not modelled.
\<close>

type_synonym filesystem = "string \<rightharpoonup> byte list"

definition mkfs_builder ::
  "(string \<Rightarrow> int) \<Rightarrow> string list \<Rightarrow> 64 word \<Rightarrow> 64 word \<Rightarrow> (nat \<Rightarrow> byte) \<Rightarrow> filesystem
     \<Rightarrow> (error + unit) \<times> filesystem" where
  "mkfs_builder atoi argv now_sb now_root adjacent fs =
     (case parse_cli_args_builder atoi argv of
        Inl e \<Rightarrow> (Inl e, fs)
      | Inr args \<Rightarrow>
          (case calculate_layout args of
             Inl e \<Rightarrow> (Inl e, fs)
           | Inr layout \<Rightarrow>
               (Inr (), fs(the (image_name args) \<mapsto>
                          build_image args layout now_sb now_root adjacent))))"

section \<open>File injector (mkfs_adder.c)\<close>

record cli_args_adder_t =
  input_image :: "string option"
  output_image :: "string option"
  filename :: "string option"

text \<open>The scan of \<open>argv\<close> in the injector's \<open>parse_cli_args\<close> (lines 10 to 36).\<close>

fun scan_adder_argv :: "string list \<Rightarrow> cli_args_adder_t \<Rightarrow> error + cli_args_adder_t" where
  "scan_adder_argv [] args = Inr args"
| "scan_adder_argv [a] args =
     (if a = ''--input'' \<or> a = ''--output'' \<or> a = ''--file'' then Inl Missing_Value
      else Inl Unknown_Argument)"
| "scan_adder_argv (a # v # rest) args =
     (if a = ''--input'' then scan_adder_argv rest (args\<lparr>input_image := Some v\<rparr>)
      else if a = ''--output'' then scan_adder_argv rest (args\<lparr>output_image := Some v\<rparr>)
      else if a = ''--file'' then scan_adder_argv rest (args\<lparr>filename := Some v\<rparr>)
      else Inl Unknown_Argument)"

text \<open>\<open>extract_filename\<close>: what follows the last \<open>/\<close> of the path, or the whole path.\<close>

definition extract_filename :: "string \<Rightarrow> string" where
  "extract_filename path = rev (takeWhile (\<lambda>c. c \<noteq> CHR ''/'') (rev path))"

definition parse_cli_args_adder :: "string list \<Rightarrow> error + cli_args_adder_t" where
  "parse_cli_args_adder argv =
     (case scan_adder_argv (tl argv)
             \<lparr>input_image = None, output_image = None, filename = None\<rparr> of
        Inl e \<Rightarrow> Inl e
      | Inr args \<Rightarrow>
          if input_image args = None then Inl Input_Required
          else if output_image args = None then Inl Output_Required
          else if filename args = None then Inl File_Required
          else if length (extract_filename (the (filename args))) > 57
            then Inl Filename_Too_Long
          else Inr args)"

text \<open>
  \<open>read_file_content\<close>: the bytes of the file and their number.  \<open>ftell\<close> returns a
  \<open>long\<close>, so a size of \<open>2^63\<close> or more is an error.
\<close>

definition read_file_content :: "filesystem \<Rightarrow> string \<Rightarrow> error + (byte list \<times> 64 word)" where
  "read_file_content fs path =
     (case fs path of
        None \<Rightarrow> Inl Cannot_Open_File
      | Some content \<Rightarrow>
          if 2 ^ 63 \<le> length content then Inl Cannot_Get_Size
          else Inr (content, of_nat (length content)))"

text \<open>
  \<open>fread(buf, BS, n, f)\<close> on the rest of the input stream: the \<open>n\<close> blocks and what follows
  them, or \<open>None\<close> when fewer than \<open>n\<close> whole blocks are left.
\<close>

definition fread_blocks :: "nat \<Rightarrow> byte list \<Rightarrow> (byte list \<times> byte list) option" where
  "fread_blocks n stream =
     (if n * BS \<le> length stream then Some (take (n * BS) stream, drop (n * BS) stream)
      else None)"

text \<open>Lines 103 to 138 of \<open>main\<close>: the superblock, its magic number, the two bitmaps.\<close>

definition read_image_header ::
  "byte list \<Rightarrow> error + (superblock_t \<times> byte list \<times> byte list \<times> byte list)" where
  "read_image_header img =
     (case fread_blocks 1 img of
        None \<Rightarrow> Inl Cannot_Read_Superblock
      | Some (block_buffer, stream1) \<Rightarrow>
          let sb = superblock_of_bytes (take 116 block_buffer) in
          if magic sb \<noteq> MAGIC_NUMBER then Inl Invalid_Magic
          else
            (case fread_blocks 1 stream1 of
               None \<Rightarrow> Inl Cannot_Read_Inode_Bitmap
             | Some (inode_bitmap, stream2) \<Rightarrow>
                 (case fread_blocks 1 stream2 of
                    None \<Rightarrow> Inl Cannot_Read_Data_Bitmap
                  | Some (data_bitmap, stream3) \<Rightarrow>
                      Inr (sb, inode_bitmap, data_bitmap, stream3))))"

text \<open>
  Lines 152 to 162: the loop that finds and marks \<open>blocks_needed\<close> data blocks, one
  first-fit search per block.  The result is \<open>data_blocks\<close> and the marked bitmap.
\<close>

fun alloc_data_blocks ::
  "nat \<Rightarrow> superblock_t \<Rightarrow> byte list \<Rightarrow> error + (32 word list \<times> byte list)" where
  "alloc_data_blocks 0 sb data_bitmap = Inr ([], data_bitmap)"
| "alloc_data_blocks (Suc n) sb data_bitmap =
     (case find_free_bit data_bitmap (ucast (superblock_t.data_region_blocks sb)) of
        None \<Rightarrow> Inl Undefined_Behaviour
      | Some free_data_bit \<Rightarrow>
          if free_data_bit < 0 then Inl Not_Enough_Data_Blocks
          else
            (case set_bit data_bitmap free_data_bit of
               None \<Rightarrow> Inl Undefined_Behaviour
             | Some data_bitmap' \<Rightarrow>
                 (case alloc_data_blocks n sb data_bitmap' of
                    Inl e \<Rightarrow> Inl e
                  | Inr (data_blocks, data_bitmap'') \<Rightarrow>
                      Inr ((ucast (superblock_t.data_region_start sb)
                              + word_of_int free_data_bit) # data_blocks,
                           data_bitmap''))))"

text \<open>
  Lines 140 to 165: the free inode, the data blocks, the mark of the inode.  The result is
  \<open>new_inode_num\<close>, \<open>data_blocks\<close> and the two bitmaps.
\<close>

definition allocate ::
  "superblock_t \<Rightarrow> byte list \<Rightarrow> byte list \<Rightarrow> nat
     \<Rightarrow> error + (32 word \<times> 32 word list \<times> byte list \<times> byte list)" where
  "allocate sb inode_bitmap data_bitmap n_blocks =
     (case find_free_bit inode_bitmap (ucast (superblock_t.inode_count sb)) of
        None \<Rightarrow> Inl Undefined_Behaviour
      | Some free_inode_bit \<Rightarrow>
          if free_inode_bit < 0 then Inl No_Free_Inodes
          else
            (case alloc_data_blocks n_blocks sb data_bitmap of
               Inl e \<Rightarrow> Inl e
             | Inr (data_blocks, data_bitmap') \<Rightarrow>
                 (case set_bit inode_bitmap free_inode_bit of
                    None \<Rightarrow> Inl Undefined_Behaviour
                  | Some inode_bitmap' \<Rightarrow>
                      Inr (word_of_int free_inode_bit + 1, data_blocks,
                           inode_bitmap', data_bitmap'))))"

text \<open>A store of \<open>ys\<close> into the buffer \<open>xs\<close> at offset \<open>off\<close> (\<open>memcpy\<close>, or a structure
  written through a pointer into the buffer).\<close>

definition write_bytes :: "nat \<Rightarrow> 'a list \<Rightarrow> 'a list \<Rightarrow> 'a list" where
  "write_bytes off ys xs = take off xs @ ys @ drop (off + length ys) xs"

text \<open>Lines 186 to 213: the inode of the new file.\<close>

definition new_file_inode :: "64 word \<Rightarrow> 32 word list \<Rightarrow> 64 word \<Rightarrow> inode_t" where
  "new_file_inode file_size data_blocks now =
     inode_crc_finalize
       \<lparr> mode = MODE_FILE, links = 1, uid = 0, gid = 0, size_bytes = file_size,
         atime = now, mtime = now, ctime = now,
         direct = fixed DIRECT_MAX data_blocks,
         reserved_0 = 0, reserved_1 = 0, reserved_2 = 0, proj_id = PROJ_ID,
         uid16_gid16 = 0, xattr_ptr = 0, inode_crc = 0 \<rparr>"

text \<open>The offset of inode \<open>n\<close> in the inode table: \<open>(n - 1) * INODE_SIZE\<close> in \<open>uint32_t\<close>.\<close>

definition inode_offset :: "32 word \<Rightarrow> nat" where
  "inode_offset n = unat ((n - 1) * of_nat INODE_SIZE)"

text \<open>
  Lines 184 to 219: the new inode is written into its slot of the inode table, then the
  root inode (read through its pointer into the same table) gets one more link and a new
  modification time.  A slot outside the table is undefined behaviour.
\<close>

definition update_inode_table ::
  "byte list \<Rightarrow> 32 word \<Rightarrow> 64 word \<Rightarrow> 32 word list \<Rightarrow> 64 word \<Rightarrow> error + byte list" where
  "update_inode_table inode_table new_inode_num file_size data_blocks now =
     (if length inode_table < inode_offset new_inode_num + INODE_SIZE
         \<or> length inode_table < inode_offset ROOT_INO + INODE_SIZE
      then Inl Undefined_Behaviour
      else
        let inode_table = write_bytes (inode_offset new_inode_num)
              (inode_bytes (new_file_inode file_size data_blocks now)) inode_table;
            root_ino = inode_of_bytes (slice (inode_offset ROOT_INO) INODE_SIZE inode_table);
            root_ino = inode_crc_finalize
              (root_ino\<lparr>links := links root_ino + 1, mtime := now\<rparr>)
        in Inr (write_bytes (inode_offset ROOT_INO) (inode_bytes root_ino) inode_table))"

text \<open>
  The byte offset in the data region of the root directory's block:
  \<open>(root_inode->direct[0] - (uint32_t)sb.data_region_start) * BS\<close> in \<open>uint32_t\<close>.
\<close>

definition root_dir_offset :: "superblock_t \<Rightarrow> inode_t \<Rightarrow> nat" where
  "root_dir_offset sb root_ino =
     unat ((direct root_ino ! 0 - ucast (superblock_t.data_region_start sb)) * of_nat BS)"

definition dir_entry :: "byte list \<Rightarrow> nat \<Rightarrow> nat \<Rightarrow> dirent64_t" where
  "dir_entry data_region dir_off i =
     dirent_of_bytes (slice (dir_off + i * dirent_size) dirent_size data_region)"

text \<open>Lines 267 to 273: the directory entry of the new file.\<close>

definition new_dir_entry :: "32 word \<Rightarrow> string \<Rightarrow> dirent64_t" where
  "new_dir_entry new_inode_num filename_only =
     dirent_checksum_finalize
       \<lparr> inode_no = new_inode_num, type = FILE_TYPE_REGULAR,
         name = fixed 57 (c_bytes filename_only) @ [0], checksum = 0 \<rparr>"

text \<open>
  Lines 242 to 277: the first entry with inode number 0 at an index from 2 in the root
  directory's block gets the new entry; the root inode's size grows by one entry.  A
  directory block outside the data region is undefined behaviour.
\<close>

definition update_root_directory ::
  "superblock_t \<Rightarrow> byte list \<Rightarrow> byte list \<Rightarrow> 32 word \<Rightarrow> string
     \<Rightarrow> error + (byte list \<times> byte list)" where
  "update_root_directory sb inode_table data_region new_inode_num filename_only =
     (if length inode_table < inode_offset ROOT_INO + INODE_SIZE then Inl Undefined_Behaviour
      else
        let root_ino = inode_of_bytes (slice (inode_offset ROOT_INO) INODE_SIZE inode_table);
            dir_off = root_dir_offset sb root_ino
        in if length data_region < dir_off + BS then Inl Undefined_Behaviour
           else
             (case List.find (\<lambda>i. inode_no (dir_entry data_region dir_off i) = 0)
                     [2..<BS div dirent_size] of
                None \<Rightarrow> Inl No_Free_Directory_Entries
              | Some free_entry_idx \<Rightarrow>
                  let data_region = write_bytes (dir_off + free_entry_idx * dirent_size)
                        (dirent_bytes (new_dir_entry new_inode_num filename_only)) data_region;
                      root_ino = inode_crc_finalize
                        (root_ino\<lparr>size_bytes := size_bytes root_ino + of_nat dirent_size\<rparr>)
                  in Inr (write_bytes (inode_offset ROOT_INO) (inode_bytes root_ino)
                            inode_table,
                          data_region)))"

text \<open>
  Lines 279 to 289: block \<open>i\<close> of the file goes to \<open>data_blocks[i]\<close>; the block is
  zeroed first and the last one gets the remaining bytes.  The list holds the pairs
  \<open>(i, data_blocks[i])\<close>.
\<close>

definition block_offset :: "superblock_t \<Rightarrow> 32 word \<Rightarrow> nat" where
  "block_offset sb data_block =
     unat ((data_block - ucast (superblock_t.data_region_start sb)) * of_nat BS)"

definition file_block :: "byte list \<Rightarrow> nat \<Rightarrow> nat \<Rightarrow> byte list" where
  "file_block file_content n_blocks i =
     (let bytes_to_copy = (if i = n_blocks - 1 then length file_content - i * BS else BS)
      in slice (i * BS) bytes_to_copy file_content @ replicate (BS - bytes_to_copy) 0)"

fun write_file_blocks ::
  "byte list \<Rightarrow> nat \<Rightarrow> superblock_t \<Rightarrow> (nat \<times> 32 word) list \<Rightarrow> byte list
     \<Rightarrow> error + byte list" where
  "write_file_blocks file_content n_blocks sb [] data_region = Inr data_region"
| "write_file_blocks file_content n_blocks sb ((i, data_block) # rest) data_region =
     (if length data_region < block_offset sb data_block + BS then Inl Undefined_Behaviour
      else write_file_blocks file_content n_blocks sb rest
             (write_bytes (block_offset sb data_block)
                (file_block file_content n_blocks i) data_region))"

text \<open>Line 88: \<open>blocks_needed = (file_size + BS - 1) / BS\<close>, in \<open>uint64_t\<close>.\<close>

definition blocks_needed :: "64 word \<Rightarrow> 64 word" where
  "blocks_needed file_size = (file_size + of_nat BS - 1) div of_nat BS"

text \<open>
  Lines 103 to 355 of \<open>main\<close>, on the bytes of the input image: the image that is written
  and the number of the new inode, or the diagnostic.  The sizes given to \<open>malloc\<close> are not
  modelled (a read of \<open>n\<close> blocks that succeeds has found \<open>n * BS\<close> bytes in the file).
\<close>

definition add_file ::
  "byte list \<Rightarrow> byte list \<Rightarrow> string \<Rightarrow> 64 word \<Rightarrow> (nat \<Rightarrow> byte)
     \<Rightarrow> error + (byte list \<times> 32 word)" where
  "add_file img file_content filename_only now adjacent =
     (let file_size = (of_nat (length file_content) :: 64 word);
          n_blocks = unat (blocks_needed file_size)
      in case read_image_header img of
           Inl e \<Rightarrow> Inl e
         | Inr (sb, inode_bitmap, data_bitmap, stream3) \<Rightarrow>
         (case allocate sb inode_bitmap data_bitmap n_blocks of
           Inl e \<Rightarrow> Inl e
         | Inr (new_inode_num, data_blocks, inode_bitmap, data_bitmap) \<Rightarrow>
         (case fread_blocks (unat (superblock_t.inode_table_blocks sb)) stream3 of
           None \<Rightarrow> Inl Cannot_Read_Inode_Table
         | Some (inode_table, stream4) \<Rightarrow>
         (case update_inode_table inode_table new_inode_num file_size data_blocks now of
           Inl e \<Rightarrow> Inl e
         | Inr inode_table \<Rightarrow>
         (case fread_blocks (unat (superblock_t.data_region_blocks sb)) stream4 of
           None \<Rightarrow> Inl Cannot_Read_Data_Region
         | Some (data_region, stream5) \<Rightarrow>
         (case update_root_directory sb inode_table data_region new_inode_num filename_only of
           Inl e \<Rightarrow> Inl e
         | Inr (inode_table, data_region) \<Rightarrow>
         (case write_file_blocks file_content n_blocks sb
                 (zip [0..<n_blocks] data_blocks) data_region of
           Inl e \<Rightarrow> Inl e
         | Inr data_region \<Rightarrow>
             let sb = fst (superblock_crc_finalize (sb\<lparr>mtime_epoch := now\<rparr>) adjacent)
             in Inr (superblock_block sb @ inode_bitmap @ data_bitmap @ inode_table
                       @ data_region,
                     new_inode_num))))))))"

text \<open>
  \<open>main\<close> of the injector: the diagnostic (exit status 1) or the assigned inode number
  (exit status 0), and the files afterwards.  The destination is opened only after every
  check; failures of \<open>fopen\<close> and \<open>fwrite\<close> on it are not modelled.
\<close>

definition mkfs_adder ::
  "string list \<Rightarrow> 64 word \<Rightarrow> (nat \<Rightarrow> byte) \<Rightarrow> filesystem
     \<Rightarrow> (error + 32 word) \<times> filesystem" where
  "mkfs_adder argv now adjacent fs =
     (case parse_cli_args_adder argv of
        Inl e \<Rightarrow> (Inl e, fs)
      | Inr args \<Rightarrow>
          (case read_file_content fs (the (filename args)) of
             Inl e \<Rightarrow> (Inl e, fs)
           | Inr (file_content, file_size) \<Rightarrow>
               if file_size = 0 then (Inl File_Is_Empty, fs)
               else if blocks_needed file_size > of_nat DIRECT_MAX
                 then (Inl File_Too_Large, fs)
               else
                 (case fs (the (input_image args)) of
                    None \<Rightarrow> (Inl Cannot_Open_Input, fs)
                  | Some img \<Rightarrow>
                      (case add_file img file_content
                              (extract_filename (the (filename args))) now adjacent of
                         Inl e \<Rightarrow> (Inl e, fs)
                       | Inr (out, new_inode_num) \<Rightarrow>
                           (Inr new_inode_num, fs(the (output_image args) \<mapsto> out))))))"

definition exit_status :: "error + 'a \<Rightarrow> int" where
  "exit_status r = (case r of Inl e \<Rightarrow> 1 | Inr v \<Rightarrow> 0)"

section \<open>Reading an image\<close>

text \<open>
  The regions of an image file, found as the injector finds them: the superblock in the
  first 116 bytes, one block for each bitmap, then \<open>inode_table_blocks\<close> blocks of inodes
  and \<open>data_region_blocks\<close> data blocks.
\<close>

definition image_superblock :: "byte list \<Rightarrow> superblock_t" where
  "image_superblock img = superblock_of_bytes (take 116 img)"

definition image_inode_bitmap :: "byte list \<Rightarrow> byte list" where
  "image_inode_bitmap img = slice BS BS img"

definition image_data_bitmap :: "byte list \<Rightarrow> byte list" where
  "image_data_bitmap img = slice (2 * BS) BS img"

definition image_inode_table :: "byte list \<Rightarrow> byte list" where
  "image_inode_table img =
     slice (3 * BS) (unat (superblock_t.inode_table_blocks (image_superblock img)) * BS) img"

definition image_data_region :: "byte list \<Rightarrow> byte list" where
  "image_data_region img =
     slice ((3 + unat (superblock_t.inode_table_blocks (image_superblock img))) * BS)
       (unat (superblock_t.data_region_blocks (image_superblock img)) * BS) img"

text \<open>Inode number \<open>n\<close> (from 1) of an image: the bytes of its slot, and the record.\<close>

definition image_inode_bytes :: "byte list \<Rightarrow> nat \<Rightarrow> byte list" where
  "image_inode_bytes img n = slice ((n - 1) * INODE_SIZE) INODE_SIZE (image_inode_table img)"

definition image_inode :: "byte list \<Rightarrow> nat \<Rightarrow> inode_t" where
  "image_inode img n = inode_of_bytes (image_inode_bytes img n)"

text \<open>The index in the data region of the root directory's block, and its entry \<open>k\<close>.\<close>

definition image_root_dir_block :: "byte list \<Rightarrow> nat" where
  "image_root_dir_block img =
     unat (direct (image_inode img 1) ! 0)
       - unat (superblock_t.data_region_start (image_superblock img))"

definition image_dir_entry_bytes :: "byte list \<Rightarrow> nat \<Rightarrow> byte list" where
  "image_dir_entry_bytes img k =
     slice (image_root_dir_block img * BS + k * dirent_size) dirent_size (image_data_region img)"

definition image_dir_entry :: "byte list \<Rightarrow> nat \<Rightarrow> dirent64_t" where
  "image_dir_entry img k = dirent_of_bytes (image_dir_entry_bytes img k)"

text \<open>Data block \<open>i\<close> of the data region (block \<open>data_region_start + i\<close> of the volume).\<close>

definition image_data_block :: "byte list \<Rightarrow> nat \<Rightarrow> byte list" where
  "image_data_block img i = slice (i * BS) BS (image_data_region img)"

subsection \<open>Allocation state of an image\<close>

text \<open>
  Inode \<open>n\<close> is allocated when it is the root inode or an entry of the root directory
  names it; a block of the volume is allocated when a direct pointer of an allocated inode
  holds its number (0 is the empty pointer).
\<close>

definition inode_allocated :: "byte list \<Rightarrow> nat \<Rightarrow> bool" where
  "inode_allocated img n \<longleftrightarrow>
     n = unat ROOT_INO
     \<or> (n \<noteq> 0 \<and> (\<exists>k < BS div dirent_size. unat (inode_no (image_dir_entry img k)) = n))"

definition block_allocated :: "byte list \<Rightarrow> nat \<Rightarrow> bool" where
  "block_allocated img p \<longleftrightarrow>
     p \<noteq> 0 \<and> (\<exists>n j. inode_allocated img n \<and> j < DIRECT_MAX
                  \<and> unat (direct (image_inode img n) ! j) = p)"

text \<open>
  The geometry of a volume: the regions follow each other from block 0 and fill the file,
  the bitmaps have a bit for every inode and data block, the inodes fit the inode table,
  block numbers fit the 32-bit pointers, and the root directory's block lies in the data
  region.
\<close>

definition image_geometry :: "byte list \<Rightarrow> bool" where
  "image_geometry img \<longleftrightarrow>
     (let sb = image_superblock img;
          itb = unat (superblock_t.inode_table_blocks sb);
          drs = unat (superblock_t.data_region_start sb);
          drb = unat (superblock_t.data_region_blocks sb);
          root_block = unat (direct (image_inode img 1) ! 0)
      in magic sb = MAGIC_NUMBER
       \<and> superblock_t.inode_bitmap_start sb = 1 \<and> superblock_t.data_bitmap_start sb = 2
       \<and> superblock_t.inode_table_start sb = 3
       \<and> drs = 3 + itb
       \<and> unat (superblock_t.total_blocks sb) = drs + drb
       \<and> unat (superblock_t.total_blocks sb) < 2 ^ 32
       \<and> length img = unat (superblock_t.total_blocks sb) * BS
       \<and> unat (superblock_t.inode_count sb) \<le> 8 * BS
       \<and> unat (superblock_t.inode_count sb) \<le> itb * (BS div INODE_SIZE)
       \<and> 1 \<le> drb \<and> drb \<le> 8 * BS
       \<and> drs \<le> root_block \<and> root_block < drs + drb)"

text \<open>
  The bitmap invariant: a bit of the inode bitmap is set exactly for the allocated inodes,
  a bit of the data bitmap exactly for the allocated data blocks, and the bits from the
  declared counts on are clear.
\<close>

definition bitmaps_consistent :: "byte list \<Rightarrow> bool" where
  "bitmaps_consistent img \<longleftrightarrow>
     (let sb = image_superblock img
      in (\<forall>i < 8 * BS. bitmap_bit (image_inode_bitmap img) i \<longleftrightarrow> inode_allocated img (i + 1))
       \<and> (\<forall>i < 8 * BS. bitmap_bit (image_data_bitmap img) i \<longleftrightarrow>
             block_allocated img (unat (superblock_t.data_region_start sb) + i))
       \<and> (\<forall>i < 8 * BS. unat (superblock_t.inode_count sb) \<le> i
             \<longrightarrow> \<not> bitmap_bit (image_inode_bitmap img) i)
       \<and> (\<forall>i < 8 * BS. unat (superblock_t.data_region_blocks sb) \<le> i
             \<longrightarrow> \<not> bitmap_bit (image_data_bitmap img) i))"

definition valid_image :: "byte list \<Rightarrow> bool" where
  "valid_image img \<longleftrightarrow> image_geometry img \<and> bitmaps_consistent img"

section \<open>Properties of the bitmap allocator\<close>

lemma byte_bit_clear_iff: "(b :: byte) AND push_bit j 1 = 0 \<longleftrightarrow> \<not> bit b j \<or> 8 \<le> j"
  by (auto simp add: and_exp_eq_0_iff_not_bit bit_imp_le_length dest: bit_imp_le_length)

lemma byte_bit_clear_exp_iff: "(b :: byte) AND 2 ^ j = 0 \<longleftrightarrow> \<not> bit b j \<or> 8 \<le> j"
  using byte_bit_clear_iff [of b j] by simp

lemma bit_full_byte: "j < 8 \<Longrightarrow> bit (0xFF :: byte) j"
proof -
  have "(0xFF :: byte) = - 1" by simp
  then show "j < 8 \<Longrightarrow> bit (0xFF :: byte) j" by (simp only: bit_minus_1_iff) simp
qed

lemma bit_number_of_nat: "(of_nat k :: 32 word) * 8 + of_nat j = of_nat (8 * k + j)"
  by (simp add: mult.commute)

lemma bit_number_unat:
  assumes "8 * k + j < 2 ^ 32"
  shows "unat ((of_nat k :: 32 word) * 8 + of_nat j) = 8 * k + j"
  using assms by (simp only: bit_number_of_nat unat_of_nat) simp

lemma bit_number_sint:
  assumes "8 * k + j < 2 ^ 31"
  shows "sint ((of_nat k :: 32 word) * 8 + of_nat j) = int (8 * k + j)"
proof -
  have "sint (of_nat (8 * k + j) :: 32 word) = int (8 * k + j)"
    using assms by (simp add: signed_of_nat signed_take_bit_int_eq_self del: of_nat_add of_nat_mult)
  then show ?thesis by (simp only: bit_number_of_nat)
qed

lemma find_free_bit_in_byte_find:
  "find_free_bit_in_byte b byte_idx max_bits js =
     map_option (\<lambda>j. sint (byte_idx * 8 + of_nat j))
       (List.find (\<lambda>j. b AND push_bit j 1 = 0 \<and> byte_idx * 8 + of_nat j < max_bits) js)"
  by (induction js) auto

lemma find_free_bit_in_byte_full:
  "find_free_bit_in_byte 0xFF byte_idx max_bits [0..<8] = None"
proof -
  have "\<not> ((0xFF :: byte) AND push_bit x 1 = 0 \<and> byte_idx * 8 + of_nat x < max_bits)"
    if "x \<in> set [0..<8]" for x
  proof
    assume a: "(0xFF :: byte) AND push_bit x 1 = 0 \<and> byte_idx * 8 + of_nat x < max_bits"
    from that have "x < 8" by simp
    moreover from a have "\<not> bit (0xFF :: byte) x \<or> 8 \<le> x"
      by (simp only: byte_bit_clear_iff)
    ultimately show False using bit_full_byte [of x] by simp
  qed
  then have "List.find (\<lambda>j. (0xFF :: byte) AND push_bit j 1 = 0 \<and> byte_idx * 8 + of_nat j < max_bits) [0..<8] = None"
    unfolding find_None_iff by blast
  then show ?thesis
    by (simp only: find_free_bit_in_byte_find option.map_disc_iff)
qed

lemma find_free_bit_from_find:
  assumes "\<forall>k \<in> set ks. k < length bitmap"
  shows "find_free_bit_from bitmap max_bits ks =
     (case List.find (\<lambda>k. find_free_bit_in_byte (bitmap ! k) (of_nat k) max_bits [0..<8] \<noteq> None) ks of
        None \<Rightarrow> Some (- 1)
      | Some k \<Rightarrow> find_free_bit_in_byte (bitmap ! k) (of_nat k) max_bits [0..<8])"
  using assms
proof (induction ks)
  case Nil
  then show ?case by simp
next
  case (Cons k ks)
  show ?case using Cons find_free_bit_in_byte_full [of "of_nat k" max_bits]
    by (auto split: option.splits simp del: find_free_bit_in_byte.simps upt_rec_numeral)
qed


lemma find_upt_Some_iff:
  "List.find P [0..<n] = Some k \<longleftrightarrow> k < n \<and> P k \<and> (\<forall>k' < k. \<not> P k')"
  by (auto simp: find_Some_iff)

lemma find_upt_None_iff:
  "List.find P [0..<n] = None \<longleftrightarrow> (\<forall>k < n. \<not> P k)"
  by (auto simp: find_None_iff)

lemma find_free_bit_spec:
  assumes len: "unat max_bits \<le> 8 * length bitmap" and small: "unat max_bits \<le> 2 ^ 31"
  shows "\<exists>r. find_free_bit bitmap max_bits = Some r
     \<and> (r = - 1 \<longleftrightarrow> (\<forall>i < unat max_bits. bitmap_bit bitmap i))
     \<and> (r \<noteq> - 1 \<longrightarrow> 0 \<le> r \<and> nat r < unat max_bits \<and> \<not> bitmap_bit bitmap (nat r)
            \<and> (\<forall>i < nat r. bitmap_bit bitmap i))"
proof -
  define n where "n = unat ((max_bits + 7) div 8)"
  have "unat (max_bits + 7) = unat max_bits + 7"
    using small by (simp add: unat_word_ariths)
  then have n: "n = (unat max_bits + 7) div 8"
    by (simp add: n_def unat_div)
  have n_len: "n \<le> length bitmap" using len n by simp
  define P where "P k j \<longleftrightarrow> bitmap ! k AND push_bit j 1 = 0 \<and> (of_nat k :: 32 word) * 8 + of_nat j < max_bits" for k j
  define inner where "inner k = find_free_bit_in_byte (bitmap ! k) (of_nat k) max_bits [0..<8]" for k
  have P_iff: "P k j \<longleftrightarrow> \<not> bitmap_bit bitmap (8 * k + j) \<and> 8 * k + j < unat max_bits"
    if "k < n" "j < 8" for k j
  proof -
    have "8 * k + j < 2 ^ 32" using that n small by simp
    then have "unat ((of_nat k :: 32 word) * 8 + of_nat j) = 8 * k + j"
      by (rule bit_number_unat)
    moreover have "(8 * k + j) div 8 = k" "(8 * k + j) mod 8 = j" using that by simp_all
    ultimately show ?thesis
      using that by (simp add: P_def byte_bit_clear_exp_iff word_less_nat_alt bitmap_bit_def)
  qed
  have inner: "inner k = map_option (\<lambda>j. sint ((of_nat k :: 32 word) * 8 + of_nat j)) (List.find (P k) [0..<8])" for k
    unfolding inner_def P_def by (rule find_free_bit_in_byte_find)
  have ff: "find_free_bit bitmap max_bits =
     (case List.find (\<lambda>k. inner k \<noteq> None) [0..<n] of None \<Rightarrow> Some (- 1) | Some k \<Rightarrow> inner k)"
    unfolding find_free_bit_def n_def [symmetric] inner_def
    by (rule find_free_bit_from_find) (use n_len in simp)
  show ?thesis
  proof (cases "List.find (\<lambda>k. inner k \<noteq> None) [0..<n]")
    case None
    then have no: "\<not> P k j" if "k < n" "j < 8" for k j
      using that by (auto simp: find_upt_None_iff inner)
    have "bitmap_bit bitmap i" if "i < unat max_bits" for i
    proof -
      have "i div 8 < n" "i mod 8 < 8" using that n by simp_all
      from no [OF this] P_iff [OF this] that show ?thesis by simp
    qed
    with None ff show ?thesis by simp
  next
    case (Some k)
    then have k: "k < n" "inner k \<noteq> None" and before: "\<forall>k' < k. inner k' = None"
      by (auto simp: find_upt_Some_iff)
    from k(2) obtain j where j: "List.find (P k) [0..<8] = Some j"
      by (auto simp: inner)
    then have j8: "j < 8" and Pj: "P k j" and jb: "\<forall>j' < j. \<not> P k j'"
      by (auto simp: find_upt_Some_iff)
    from Pj P_iff [OF k(1) j8] have free: "\<not> bitmap_bit bitmap (8 * k + j)" "8 * k + j < unat max_bits"
      by simp_all
    have "8 * k + j < 2 ^ 31" using free(2) small by simp
    then have r: "inner k = Some (int (8 * k + j))"
      using j by (simp add: inner bit_number_sint del: of_nat_add of_nat_mult)
    have lower: "bitmap_bit bitmap i" if "i < 8 * k + j" for i
    proof -
      have "i div 8 \<le> k" using that j8 by presburger
      then have i: "i div 8 < n" "i mod 8 < 8" "i < unat max_bits" using that k(1) free(2) by simp_all
      have "\<not> P (i div 8) (i mod 8)"
      proof (cases "i div 8 < k")
        case True
        with before have "inner (i div 8) = None" by simp
        then show ?thesis using i(2) by (auto simp: inner find_upt_None_iff)
      next
        case False
        with that j8 have "i div 8 = k \<and> i mod 8 < j" by presburger
        then have "i div 8 = k" "i mod 8 < j" by simp_all
        with jb show ?thesis by simp
      qed
      with P_iff [OF i(1,2)] i(3) show ?thesis by simp
    qed
    have "find_free_bit bitmap max_bits = Some (int (8 * k + j))"
      using ff Some r by simp
    moreover have "int (8 * k + j) \<noteq> - 1" by simp
    moreover have "\<not> (\<forall>i < unat max_bits. bitmap_bit bitmap i)" using free by blast
    ultimately show ?thesis using free lower by (simp del: of_nat_add of_nat_mult)
  qed
qed

text \<open>
  C4 (amended).  For every bitmap that holds at least \<open>max_bits\<close> bits, with
  \<open>max_bits \<le> 2^31\<close>, \<open>find_free_bit\<close> returns the lowest index below \<open>max_bits\<close>
  whose bit is clear, and returns \<open>-1\<close> exactly when no bit below \<open>max_bits\<close> is clear.
\<close>

theorem find_free_bit_first_fit:
  assumes "unat max_bits \<le> 8 * length bitmap" and "unat max_bits \<le> 2 ^ 31"
  shows "\<exists>r. find_free_bit bitmap max_bits = Some r
     \<and> (r = - 1 \<longleftrightarrow> (\<forall>i < unat max_bits. bitmap_bit bitmap i))
     \<and> (r \<noteq> - 1 \<longrightarrow> 0 \<le> r \<and> nat r < unat max_bits \<and> \<not> bitmap_bit bitmap (nat r)
            \<and> (\<forall>i < nat r. bitmap_bit bitmap i))"
  using assms by (rule find_free_bit_spec)

theorem find_free_bit_first_fit_witness:
  "unat (16 :: 32 word) \<le> 8 * length [0xFF, 0x07 :: byte] \<and> unat (16 :: 32 word) \<le> 2 ^ 31
   \<and> (\<exists>r. find_free_bit [0xFF, 0x07] 16 = Some r
     \<and> (r = - 1 \<longleftrightarrow> (\<forall>i < unat (16 :: 32 word). bitmap_bit [0xFF, 0x07] i))
     \<and> (r \<noteq> - 1 \<longrightarrow> 0 \<le> r \<and> nat r < unat (16 :: 32 word)
            \<and> \<not> bitmap_bit [0xFF, 0x07] (nat r)
            \<and> (\<forall>i < nat r. bitmap_bit [0xFF, 0x07] i)))"
  using find_free_bit_first_fit [of 16 "[0xFF, 0x07]"] by simp

text \<open>
  The claim as stated, for every \<open>max_bits\<close>, fails where \<open>max_bits + 7\<close> wraps around
  in \<open>uint32_t\<close>: with \<open>max_bits = 0xFFFFFFFF\<close> the loop bound \<open>(max_bits + 7) / 8\<close> is 0,
  and an all-clear bitmap block gives "not found".
\<close>

theorem find_free_bit_wraps_counterexample:
  "find_free_bit (replicate 4096 0) 0xFFFFFFFF = Some (- 1)
   \<and> \<not> bitmap_bit (replicate 4096 0) 0 \<and> (0 :: nat) < unat (0xFFFFFFFF :: 32 word)"
  by (simp add: find_free_bit_def bitmap_bit_def)
section \<open>Slices and stores in buffers\<close>

lemma length_slice: "off + n \<le> length xs \<Longrightarrow> length (slice off n xs) = n"
  by (simp add: slice_def)

lemma length_slice_le: "length (slice off n xs) \<le> n"
  by (simp add: slice_def)

lemma slice_append_left: "off + n \<le> length xs \<Longrightarrow> slice off n (xs @ ys) = slice off n xs"
  by (simp add: slice_def)

lemma slice_append_right:
  "length xs \<le> off \<Longrightarrow> slice off n (xs @ ys) = slice (off - length xs) n ys"
  by (simp add: slice_def)

lemma slice_0_length: "n = length xs \<Longrightarrow> slice 0 n (xs @ ys) = xs"
  by (simp add: slice_def)

lemma slice_slice: "a + n \<le> m \<Longrightarrow> slice a n (slice b m xs) = slice (b + a) n xs"
  by (simp add: slice_def drop_take min_absorb1 add.commute)

lemma nth_slice: "i < n \<Longrightarrow> off + n \<le> length xs \<Longrightarrow> slice off n xs ! i = xs ! (off + i)"
  by (simp add: slice_def)

lemma length_write_bytes:
  "off + length ys \<le> length xs \<Longrightarrow> length (write_bytes off ys xs) = length xs"
  by (simp add: write_bytes_def)

lemma slice_write_bytes_same:
  "off + length ys \<le> length xs \<Longrightarrow> n = length ys \<Longrightarrow>
     slice off n (write_bytes off ys xs) = ys"
  by (simp add: write_bytes_def slice_def)

lemma slice_write_bytes_before:
  "off + length ys \<le> length xs \<Longrightarrow> o2 + n \<le> off \<Longrightarrow>
     slice o2 n (write_bytes off ys xs) = slice o2 n xs"
  by (simp add: write_bytes_def slice_def drop_take min_absorb1)

lemma slice_write_bytes_after:
  assumes "off + length ys \<le> length xs" "off + length ys \<le> o2"
  shows "slice o2 n (write_bytes off ys xs) = slice o2 n xs"
proof -
  have "drop o2 (take off xs @ ys @ drop (off + length ys) xs) = drop o2 xs"
    using assms by (simp add: drop_take)
  then show ?thesis by (simp add: write_bytes_def slice_def)
qed

lemma slice_write_bytes_disjoint:
  "off + length ys \<le> length xs \<Longrightarrow> o2 + n \<le> off \<or> off + length ys \<le> o2 \<Longrightarrow>
     slice o2 n (write_bytes off ys xs) = slice o2 n xs"
  using slice_write_bytes_before slice_write_bytes_after by blast

lemma nth_write_bytes:
  "off + length ys \<le> length xs \<Longrightarrow> i < length xs \<Longrightarrow>
     write_bytes off ys xs ! i
       = (if off \<le> i \<and> i < off + length ys then ys ! (i - off) else xs ! i)"
  by (auto simp: write_bytes_def nth_append)

section \<open>Properties of the byte codecs\<close>

lemma length_le_bytes [simp]: "length (le_bytes n w) = n"
  by (simp add: le_bytes_def)

lemma length_fixed [simp]: "length (fixed n xs) = n"
  by (simp add: fixed_def)

lemma length_superblock_bytes [simp]: "length (superblock_bytes sb) = 116"
  by (simp add: superblock_bytes_def)

lemma length_concat_le_bytes [simp]: "length (concat (map (le_bytes n) ws)) = n * length ws"
  by (induction ws) simp_all

lemma length_inode_bytes [simp]: "length (inode_bytes ino) = 128"
  by (simp add: inode_bytes_def DIRECT_MAX_def)

lemma length_dirent_bytes [simp]: "length (dirent_bytes de) = 64"
  by (simp add: dirent_bytes_def)

lemma bit_byte_less: "bit (b :: byte) k \<Longrightarrow> k < 8"
  using bit_imp_le_length [of b k] by simp

lemma bit_le_word:
  "bit (le_word bs :: 'a::len word) k \<longleftrightarrow>
     k < LENGTH('a) \<and> k div 8 < length bs \<and> bit (bs ! (k div 8)) (k mod 8)"
proof (induction bs arbitrary: k)
  case Nil
  then show ?case by simp
next
  case (Cons b bs)
  have split: "bit (le_word (b # bs) :: 'a word) n \<longleftrightarrow>
      (n < LENGTH('a) \<and> bit b n) \<or> (8 \<le> n \<and> n < LENGTH('a) \<and> bit (le_word bs :: 'a word) (n - 8))"
    for n
    by (simp add: bit_or_iff bit_push_bit_iff bit_ucast_iff)
  show ?case
  proof (cases "k < 8")
    case True
    then have "k div 8 = 0" "k mod 8 = k" by simp_all
    with True show ?thesis unfolding split by simp
  next
    case False
    define m where "m = k - 8"
    with False have k: "k = m + 8" by simp
    have nb: "\<not> bit b (m + 8)" using bit_byte_less [of b "m + 8"] by auto
    have "bit (le_word (b # bs) :: 'a word) (m + 8) \<longleftrightarrow>
       m + 8 < LENGTH('a) \<and> (m < LENGTH('a) \<and> m div 8 < length bs \<and> bit (bs ! (m div 8)) (m mod 8))"
      unfolding split Cons.IH using nb by simp
    also have "\<dots> \<longleftrightarrow> m + 8 < LENGTH('a) \<and> (m + 8) div 8 < length (b # bs)
         \<and> bit ((b # bs) ! ((m + 8) div 8)) ((m + 8) mod 8)"
    proof -
      have "(m + 8) div 8 = Suc (m div 8)"
        using div_add_self2 [of 8 m] by simp
      then show ?thesis by auto
    qed
    finally show ?thesis unfolding k .
  qed
qed

lemma bit_le_bytes:
  "i < n \<Longrightarrow> bit (le_bytes n (w :: 'a::len word) ! i) j \<longleftrightarrow> j < 8 \<and> bit w (8 * i + j)"
  by (auto simp: le_bytes_def bit_ucast_iff bit_drop_bit_eq dest: bit_imp_le_length)

lemma le_word_le_bytes:
  assumes "LENGTH('a) \<le> 8 * n"
  shows "le_word (le_bytes n w) = (w :: 'a::len word)"
proof (rule bit_word_eqI)
  fix k assume k: "k < LENGTH('a)"
  then have "k div 8 < n" using assms by (simp add: less_mult_imp_div_less mult.commute)
  then show "bit (le_word (le_bytes n w) :: 'a word) k \<longleftrightarrow> bit w k"
    using k by (simp add: bit_le_word bit_le_bytes)
qed

lemma le_bytes_le_word:
  assumes "length bs = n" "8 * n \<le> LENGTH('a)"
  shows "le_bytes n (le_word bs :: 'a::len word) = bs"
proof (rule nth_equalityI)
  show "length (le_bytes n (le_word bs :: 'a word)) = length bs" using assms by simp
next
  fix i assume "i < length (le_bytes n (le_word bs :: 'a word))"
  then have i: "i < n" by simp
  show "le_bytes n (le_word bs :: 'a word) ! i = bs ! i"
  proof (rule bit_word_eqI)
    fix j assume "j < LENGTH(8)"
    then have j: "j < 8" by simp
    then have "8 * i + j < 8 * n" using i by simp
    then have "8 * i + j < LENGTH('a)" using assms(2) by simp
    moreover have "(8 * i + j) div 8 = i" "(8 * i + j) mod 8 = j" using j by simp_all
    ultimately show "bit (le_bytes n (le_word bs :: 'a word) ! i) j \<longleftrightarrow> bit (bs ! i) j"
      using i j assms(1) by (simp add: bit_le_bytes bit_le_word)
  qed
qed

section \<open>Round trips of the packed records\<close>

lemma le_word_le_bytes_2 [simp]: "le_word (le_bytes 2 w) = (w :: 16 word)"
  by (rule le_word_le_bytes) simp
lemma le_word_le_bytes_4 [simp]: "le_word (le_bytes 4 w) = (w :: 32 word)"
  by (rule le_word_le_bytes) simp
lemma le_word_le_bytes_8 [simp]: "le_word (le_bytes 8 w) = (w :: 64 word)"
  by (rule le_word_le_bytes) simp

lemma superblock_of_bytes_append:
  "superblock_of_bytes (superblock_bytes sb @ rest) = sb"
  by (simp add: superblock_of_bytes_def superblock_bytes_def slice_def)

lemma superblock_of_bytes_bytes: "superblock_of_bytes (superblock_bytes sb) = sb"
  using superblock_of_bytes_append [of sb "[]"] by simp

lemma dirent_of_bytes_bytes:
  "length (name de) = 58 \<Longrightarrow> dirent_of_bytes (dirent_bytes de) = de"
  by (simp add: dirent_of_bytes_def dirent_bytes_def slice_def fixed_def nth_append)

lemma slice_concat_le_bytes:
  "i < length ds \<Longrightarrow> slice (4 * i) 4 (concat (map (le_bytes 4) ds)) = le_bytes 4 (ds ! i)"
proof (induction ds arbitrary: i)
  case Nil
  then show ?case by simp
next
  case (Cons d ds)
  show ?case
  proof (cases i)
    case 0
    then show ?thesis by (simp add: slice_def)
  next
    case (Suc j)
    with Cons.prems have j: "j < length ds" by simp
    have "slice (4 * Suc j) 4 (le_bytes 4 d @ concat (map (le_bytes 4) ds))
            = slice (4 * j) 4 (concat (map (le_bytes 4) ds))"
      by (simp add: slice_def)
    with Cons.IH [OF j] Suc show ?thesis by simp
  qed
qed

lemma inode_direct_slice:
  assumes "length ds = 12" "i < 12" "length A = 44"
  shows "slice (44 + 4 * i) 4 (A @ concat (map (le_bytes 4) ds) @ B) = le_bytes 4 (ds ! i)"
proof -
  have "slice (44 + 4 * i) 4 (A @ concat (map (le_bytes 4) ds) @ B)
          = slice (4 * i) 4 (concat (map (le_bytes 4) ds) @ B)"
    using assms by (simp add: slice_def)
  also have "\<dots> = slice (4 * i) 4 (concat (map (le_bytes 4) ds))"
    using assms by (intro slice_append_left) simp
  also have "\<dots> = le_bytes 4 (ds ! i)"
    using assms by (intro slice_concat_le_bytes) simp
  finally show ?thesis .
qed

lemma inode_of_bytes_bytes:
  assumes "length (direct ino) = 12"
  shows "inode_of_bytes (inode_bytes ino) = ino"
proof -
  define A where "A = le_bytes 2 (mode ino) @ le_bytes 2 (links ino) @ le_bytes 4 (uid ino)
     @ le_bytes 4 (gid ino) @ le_bytes 8 (size_bytes ino) @ le_bytes 8 (atime ino)
     @ le_bytes 8 (mtime ino) @ le_bytes 8 (ctime ino)"
  define B where "B = le_bytes 4 (reserved_0 ino) @ le_bytes 4 (reserved_1 ino)
     @ le_bytes 4 (reserved_2 ino) @ le_bytes 4 (proj_id ino) @ le_bytes 4 (uid16_gid16 ino)
     @ le_bytes 8 (xattr_ptr ino) @ le_bytes 8 (inode_crc ino)"
  have fx: "fixed DIRECT_MAX (direct ino) = direct ino"
    using assms by (simp add: fixed_def DIRECT_MAX_def)
  have ib: "inode_bytes ino = A @ concat (map (le_bytes 4) (direct ino)) @ B"
    by (simp add: inode_bytes_def A_def B_def fx)
  have lA: "length A = 44" by (simp add: A_def)
  have "map (\<lambda>i. le_word (slice (44 + 4 * i) 4 (inode_bytes ino)) :: 32 word) [0..<12]
          = map (\<lambda>i. direct ino ! i) [0..<12]"
    by (rule map_cong) (simp_all add: ib inode_direct_slice [OF assms _ lA])
  also have "\<dots> = direct ino"
    using map_nth [of "direct ino"] assms by simp
  finally have d: "map (\<lambda>i. le_word (slice (44 + 4 * i) 4 (inode_bytes ino)) :: 32 word) [0..<12]
     = direct ino" .
  have rest: "mode (inode_of_bytes (inode_bytes ino)) = mode ino"
    "links (inode_of_bytes (inode_bytes ino)) = links ino"
    "uid (inode_of_bytes (inode_bytes ino)) = uid ino"
    "gid (inode_of_bytes (inode_bytes ino)) = gid ino"
    "size_bytes (inode_of_bytes (inode_bytes ino)) = size_bytes ino"
    "atime (inode_of_bytes (inode_bytes ino)) = atime ino"
    "mtime (inode_of_bytes (inode_bytes ino)) = mtime ino"
    "ctime (inode_of_bytes (inode_bytes ino)) = ctime ino"
    "reserved_0 (inode_of_bytes (inode_bytes ino)) = reserved_0 ino"
    "reserved_1 (inode_of_bytes (inode_bytes ino)) = reserved_1 ino"
    "reserved_2 (inode_of_bytes (inode_bytes ino)) = reserved_2 ino"
    "proj_id (inode_of_bytes (inode_bytes ino)) = proj_id ino"
    "uid16_gid16 (inode_of_bytes (inode_bytes ino)) = uid16_gid16 ino"
    "xattr_ptr (inode_of_bytes (inode_bytes ino)) = xattr_ptr ino"
    "inode_crc (inode_of_bytes (inode_bytes ino)) = inode_crc ino"
    by (simp_all add: inode_of_bytes_def inode_bytes_def slice_def DIRECT_MAX_def)
  have "direct (inode_of_bytes (inode_bytes ino)) = direct ino"
    using d by (simp add: inode_of_bytes_def DIRECT_MAX_def)
  with rest show ?thesis by (intro inode_t.equality) simp_all
qed

lemma length_direct_inode_of_bytes [simp]: "length (direct (inode_of_bytes bs)) = 12"
  by (simp add: inode_of_bytes_def DIRECT_MAX_def)

section \<open>Properties of the checksum engine\<close>

lemma superblock_bytes_checksum_update:
  "superblock_bytes (sb\<lparr>superblock_t.checksum := c\<rparr>)
     = take 112 (superblock_bytes sb) @ le_bytes 4 c"
  by (simp add: superblock_bytes_def)


lemma take_120_inode_bytes_crc:
  "take 120 (inode_bytes (ino\<lparr>inode_crc := c\<rparr>)) = take 120 (inode_bytes ino)"
  by (simp add: inode_bytes_def DIRECT_MAX_def)

lemma inode_crc_finalize_idem:
  "inode_crc_finalize (inode_crc_finalize ino) = inode_crc_finalize ino"
  by (simp add: inode_crc_finalize_def Let_def take_120_inode_bytes_crc)





lemma crc32_round_xor: "crc32_round (a XOR b) = crc32_round a XOR crc32_round b"
proof -
  have odd: "c AND 1 \<noteq> 0 \<longleftrightarrow> odd c" for c :: "32 word"
    by (simp add: and_one_eq mod_2_eq_odd)
  show ?thesis
    unfolding crc32_round_def odd
    by (cases "odd a"; cases "odd b") (simp_all add: ac_simps even_xor_iff)
qed

lemma crc32_round_pow_xor: "(crc32_round ^^ n) (a XOR b) = (crc32_round ^^ n) a XOR (crc32_round ^^ n) b"
  by (induction n) (simp_all add: crc32_round_xor)

lemma crc32_entry_xor: "crc32_entry (a XOR b) = crc32_entry a XOR crc32_entry b"
  unfolding crc32_entry_def by (rule crc32_round_pow_xor)

lemma crc32_entry_1: "crc32_entry 1 = 0x77073096"
  by code_simp

lemma CRC32_TAB_nth: "CRC32_TAB ! unat (w AND 0xFF) = crc32_entry (w AND 0xFF)"
proof -
  have "w AND 0xFF \<le> 0xFF" by (rule word_and_le1)
  then have "unat (w AND 0xFF) < 256" by (simp add: word_le_nat_alt)
  then show ?thesis by (simp add: CRC32_TAB_def)
qed

lemma crc32_step_last_byte: "crc32_step 1 c \<noteq> crc32_step 0 c"
proof -
  have d: "(c XOR 1) AND 0xFF = (c AND 0xFF) XOR 1"
    by (simp add: bit.conj_xor_distrib2)
  have "crc32_step 1 c = crc32_entry ((c XOR 1) AND 0xFF) XOR drop_bit 8 c"
    unfolding crc32_step_def by (simp only: CRC32_TAB_nth ucast_1)
  also have "\<dots> = (crc32_entry (c AND 0xFF) XOR drop_bit 8 c) XOR 0x77073096"
    unfolding d crc32_entry_xor crc32_entry_1 by (simp add: ac_simps)
  also have "crc32_entry (c AND 0xFF) XOR drop_bit 8 c = crc32_step 0 c"
    unfolding crc32_step_def by (simp only: CRC32_TAB_nth ucast_0 xor.right_neutral)
  finally have e: "crc32_step 1 c = crc32_step 0 c XOR 0x77073096" .
  show ?thesis
  proof
    assume "crc32_step 1 c = crc32_step 0 c"
    with e have "crc32_step 0 c XOR (crc32_step 0 c XOR 0x77073096) = crc32_step 0 c XOR crc32_step 0 c"
      by simp
    then have "(0x77073096 :: 32 word) = 0"
      by (simp only: xor.assoc [symmetric] xor_self_eq xor.left_neutral)
    then show False by simp
  qed
qed

lemma crc32_snoc: "crc32 (xs @ [b]) = crc32_step b (fold crc32_step xs 0xFFFFFFFF) XOR 0xFFFFFFFF"
  by (simp add: crc32_def)

lemma crc32_last_byte: "crc32 (xs @ [1]) \<noteq> crc32 (xs @ [0])"
  unfolding crc32_snoc using crc32_step_last_byte [of "fold crc32_step xs 0xFFFFFFFF"]
  by (metis bit.xor_left_self xor.commute)

lemma superblock_crc_finalize_checksum:
  "superblock_t.checksum (fst (superblock_crc_finalize sb adjacent))
     = crc32 (superblock_bytes (sb\<lparr>superblock_t.checksum := 0\<rparr>) @ map adjacent [0..<3976])"
  by (simp add: superblock_crc_finalize_def Let_def BS_def)

lemma superblock_crc_finalize_unchecksum:
  "(fst (superblock_crc_finalize sb adjacent))\<lparr>superblock_t.checksum := 0\<rparr>
     = sb\<lparr>superblock_t.checksum := 0\<rparr>"
  by (simp add: superblock_crc_finalize_def Let_def)

lemma take_superblock_block:
  "take (BS - 4) (superblock_block sb) = superblock_bytes sb @ replicate 3976 0"
  by (simp add: superblock_block_def BS_def)

lemma map_upt_last_one:
  "map (\<lambda>i. if i = n then 1 else (0 :: byte)) [0..<Suc n] = replicate n 0 @ [1]"
proof -
  have "map (\<lambda>i. if i = n then 1 else (0 :: byte)) [0..<n] = map (\<lambda>i. 0) [0..<n]"
    by (rule map_cong) simp_all
  then show ?thesis by (simp add: map_replicate_trivial)
qed

lemma superblock_crc_zero_memory:
  "superblock_t.checksum (fst (superblock_crc_finalize sb (\<lambda>i. 0)))
     = crc32 (take (BS - 4) (superblock_block (sb\<lparr>superblock_t.checksum := 0\<rparr>)))"
  by (simp add: superblock_crc_finalize_checksum take_superblock_block map_replicate_trivial)


text \<open>
  C1.  The stored checksum is the CRC32 of the first \<open>BS - 4\<close> bytes of the zero-padded
  block only if the memory after the structure is zero (\<open>superblock_crc_zero_memory\<close>).
  When the last byte that \<open>crc32\<close> reads after the structure is 1, the checksum stored by
  \<open>superblock_crc_finalize\<close> differs from the CRC32 recomputed over the first \<open>BS - 4\<close>
  bytes of the block that is written (the finalized record with its checksum field
  zeroed, zero-filled to the block size).
\<close>

theorem superblock_crc_reads_adjacent_memory:
  "superblock_t.checksum (fst (superblock_crc_finalize sb (\<lambda>i. if i = 3975 then 1 else 0)))
     \<noteq> crc32 (take (BS - 4) (superblock_block
            ((fst (superblock_crc_finalize sb (\<lambda>i. if i = 3975 then 1 else 0)))
               \<lparr>superblock_t.checksum := 0\<rparr>)))"
proof -
  define sb0 where "sb0 = sb\<lparr>superblock_t.checksum := 0\<rparr>"
  have a: "map (\<lambda>i. if i = 3975 then 1 else (0 :: byte)) [0..<3976] = replicate 3975 0 @ [1]"
    using map_upt_last_one [of 3975] by simp
  have "(3976 :: nat) = Suc 3975" by simp
  then have b: "replicate 3976 (0 :: byte) = replicate 3975 0 @ [0]"
    by (simp only: replicate_Suc replicate_append_same)
  have "crc32 ((superblock_bytes sb0 @ replicate 3975 0) @ [1])
          \<noteq> crc32 ((superblock_bytes sb0 @ replicate 3975 0) @ [0])"
    by (rule crc32_last_byte)
  then show ?thesis
    unfolding superblock_crc_finalize_checksum superblock_crc_finalize_unchecksum
      take_superblock_block sb0_def [symmetric] a b
    by simp
qed

section \<open>Properties of the allocation steps\<close>

lemma read_image_header_Inr:
  assumes "read_image_header img = Inr (sb, ibm, dbm, s3)"
  shows "3 * BS \<le> length img" "sb = image_superblock img" "magic sb = MAGIC_NUMBER"
    "ibm = image_inode_bitmap img" "dbm = image_data_bitmap img" "s3 = drop (3 * BS) img"
  using assms
  by (auto simp: read_image_header_def fread_blocks_def Let_def image_superblock_def
      image_inode_bitmap_def image_data_bitmap_def slice_def BS_def
      split: if_splits option.splits)

lemma find_free_bit_in_byte_Some:
  assumes "find_free_bit_in_byte b byte_idx max_bits js = Some r"
  shows "\<exists>j \<in> set js. b AND push_bit j 1 = 0 \<and> byte_idx * 8 + of_nat j < max_bits
           \<and> r = sint (byte_idx * 8 + of_nat j)"
  using assms by (induction js) (auto split: if_splits)

lemma find_free_bit_from_Some:
  assumes "find_free_bit_from bitmap max_bits ks = Some r" "r \<noteq> - 1"
  shows "\<exists>k \<in> set ks. k < length bitmap
           \<and> find_free_bit_in_byte (bitmap ! k) (of_nat k) max_bits [0..<8] = Some r"
  using assms
proof (induction ks)
  case Nil
  then show ?case by simp
next
  case (Cons k ks)
  then show ?case
    by (auto split: if_splits option.splits simp del: find_free_bit_in_byte.simps upt_rec_numeral)
qed

lemma sint_nonneg_eq_uint:
  assumes "0 \<le> sint (w :: 32 word)"
  shows "sint w = uint w"
proof -
  have s: "sint w = signed_take_bit 31 (uint w)" by (simp add: sint_uint)
  have "uint w < 2 ^ 31"
  proof (rule ccontr)
    assume "\<not> uint w < 2 ^ 31"
    then have "2 ^ 31 \<le> uint w" by simp
    from signed_take_bit_int_less_eq [OF this] have "signed_take_bit 31 (uint w) \<le> uint w - 2 ^ 32"
      by simp
    moreover have "uint w < 2 ^ 32" using uint_lt2p [of w] by simp
    ultimately show False using assms s by simp
  qed
  moreover have "- (2 ^ 31) \<le> uint w"
  proof -
    have "- (2 ^ 31) \<le> (0 :: int)" by simp
    also have "0 \<le> uint w" by simp
    finally show ?thesis .
  qed
  ultimately show ?thesis unfolding s by (intro signed_take_bit_int_eq_self)
qed

lemma find_free_bit_nonneg:
  assumes "find_free_bit bitmap max_bits = Some r" "0 \<le> r"
  shows "nat r < 8 * length bitmap" "nat r < unat max_bits" "\<not> bitmap_bit bitmap (nat r)"
    "r < 2 ^ 31"
proof -
  define n where "n = unat ((max_bits + 7) div 8)"
  have "unat ((max_bits + 7) div 8) = unat (max_bits + 7) div 8"
    by (simp add: unat_div)
  moreover have "unat (max_bits + 7) < 2 ^ 32"
    using unsigned_less [of "max_bits + 7", where 'a = nat] by simp
  ultimately have n: "n < 2 ^ 29" by (simp add: n_def)
  from assms have "r \<noteq> - 1" by simp
  with assms(1) obtain k where k: "k < n" "k < length bitmap"
    and inner: "find_free_bit_in_byte (bitmap ! k) (of_nat k) max_bits [0..<8] = Some r"
    unfolding find_free_bit_def n_def [symmetric]
    using find_free_bit_from_Some [of bitmap max_bits "[0..<n]" r] by auto
  from find_free_bit_in_byte_Some [OF inner] obtain j where j: "j < 8"
    and clear: "bitmap ! k AND push_bit j 1 = 0"
    and lt: "(of_nat k :: 32 word) * 8 + of_nat j < max_bits"
    and r: "r = sint ((of_nat k :: 32 word) * 8 + of_nat j)"
    by auto
  have small: "8 * k + j < 2 ^ 32" using k(1) n j by simp
  have u: "unat ((of_nat k :: 32 word) * 8 + of_nat j) = 8 * k + j"
    by (rule bit_number_unat [OF small])
  have "sint ((of_nat k :: 32 word) * 8 + of_nat j) = uint ((of_nat k :: 32 word) * 8 + of_nat j)"
    using assms(2) r by (intro sint_nonneg_eq_uint) simp
  then have "r = int (unat ((of_nat k :: 32 word) * 8 + of_nat j))"
    using r by simp
  then have rv: "r = int (8 * k + j)"
    by (simp only: u)
  then have nr: "nat r = 8 * k + j" by simp
  have d: "(8 * k + j) div 8 = k" "(8 * k + j) mod 8 = j" using j by simp_all
  show "nat r < 8 * length bitmap" using nr k(2) j by simp
  show "nat r < unat max_bits" using lt u nr by (simp add: word_less_nat_alt)
  show "\<not> bitmap_bit bitmap (nat r)"
    using clear j by (simp add: nr bitmap_bit_def d byte_bit_clear_exp_iff)
  have "r = sint ((of_nat k :: 32 word) * 8 + of_nat j)" by (rule r)
  also have "\<dots> < 2 ^ (LENGTH(32) - 1)" by (rule sint_lt)
  finally show "r < 2 ^ 31" by simp
qed

lemma bit_or_exp_byte:
  "j < 8 \<Longrightarrow> bit ((b :: byte) OR 2 ^ j) i \<longleftrightarrow> bit b i \<or> i = j"
  by (auto simp: bit_or_iff bit_exp_iff)

lemma set_bit_Some:
  assumes "set_bit bitmap r = Some bitmap'"
  shows "0 \<le> r" "nat r < 8 * length bitmap" "length bitmap' = length bitmap"
    "bitmap_bit bitmap' i \<longleftrightarrow> bitmap_bit bitmap i \<or> i = nat r"
proof -
  from assms have r: "0 \<le> r" and len: "nat (r div 8) < length bitmap"
    and b': "bitmap' = bitmap[nat (r div 8) := bitmap ! nat (r div 8) OR push_bit (nat (r mod 8)) 1]"
    by (auto simp: set_bit_def split: if_splits)
  have d: "nat (r div 8) = nat r div 8" "nat (r mod 8) = nat r mod 8"
    using r by (simp_all add: nat_div_distrib nat_mod_distrib)
  show "0 \<le> r" by (rule r)
  show "nat r < 8 * length bitmap" using len d by (simp add: div_less_iff_less_mult mult.commute)
  show "length bitmap' = length bitmap" by (simp add: b')
  show "bitmap_bit bitmap' i \<longleftrightarrow> bitmap_bit bitmap i \<or> i = nat r"
  proof (cases "i div 8 = nat r div 8")
    case True
    have "i = nat r \<longleftrightarrow> i mod 8 = nat r mod 8"
      using True by (metis div_mult_mod_eq)
    then show ?thesis
      using True len d by (simp add: bitmap_bit_def b' bit_or_exp_byte)
  next
    case False
    then have "i \<noteq> nat r" by auto
    with False show ?thesis by (simp add: bitmap_bit_def b' d)
  qed
qed

lemma set_bit_succeeds:
  "0 \<le> r \<Longrightarrow> nat r < 8 * length bitmap \<Longrightarrow> \<exists>bitmap'. set_bit bitmap r = Some bitmap'"
  by (simp add: set_bit_def nat_div_distrib)

lemma alloc_data_blocks_Inr:
  assumes "alloc_data_blocks n sb data_bitmap = Inr (data_blocks, data_bitmap')"
  shows "\<exists>bits. length bits = n \<and> distinct bits
     \<and> data_blocks = map (\<lambda>b. ucast (superblock_t.data_region_start sb) + of_nat b) bits
     \<and> (\<forall>b \<in> set bits. b < 8 * length data_bitmap
            \<and> b < unat (ucast (superblock_t.data_region_blocks sb) :: 32 word)
            \<and> \<not> bitmap_bit data_bitmap b)
     \<and> length data_bitmap' = length data_bitmap
     \<and> (\<forall>i. bitmap_bit data_bitmap' i \<longleftrightarrow> bitmap_bit data_bitmap i \<or> i \<in> set bits)"
  using assms
proof (induction n arbitrary: data_bitmap data_blocks data_bitmap')
  case 0
  then show ?case by simp
next
  case (Suc n)
  obtain r where ff: "find_free_bit data_bitmap (ucast (superblock_t.data_region_blocks sb)) = Some r"
    using Suc.prems by (cases "find_free_bit data_bitmap (ucast (superblock_t.data_region_blocks sb))") simp_all
  have r: "0 \<le> r"
    using Suc.prems ff by (cases "r < 0") simp_all
  obtain bm1 where sb: "set_bit data_bitmap r = Some bm1"
    using Suc.prems ff r by (cases "set_bit data_bitmap r") simp_all
  obtain blocks1 bm2 where rec0: "alloc_data_blocks n sb bm1 = Inr (blocks1, bm2)"
    using Suc.prems ff r sb by (cases "alloc_data_blocks n sb bm1") auto
  have rec: "alloc_data_blocks n sb bm1 = Inr (blocks1, data_bitmap')"
    and blocks: "data_blocks = (ucast (superblock_t.data_region_start sb) + word_of_int r) # blocks1"
    using Suc.prems ff r sb rec0 by simp_all
  note f = find_free_bit_nonneg [OF ff r]
  note s = set_bit_Some [OF sb]
  from Suc.IH [OF rec] obtain bits where bits: "length bits = n" "distinct bits"
    "blocks1 = map (\<lambda>b. ucast (superblock_t.data_region_start sb) + of_nat b) bits"
    "\<forall>b \<in> set bits. b < 8 * length bm1
            \<and> b < unat (ucast (superblock_t.data_region_blocks sb) :: 32 word)
            \<and> \<not> bitmap_bit bm1 b"
    "length data_bitmap' = length bm1"
    "\<forall>i. bitmap_bit data_bitmap' i \<longleftrightarrow> bitmap_bit bm1 i \<or> i \<in> set bits"
    by blast
  have notin: "nat r \<notin> set bits"
    using bits(4) s(4) [of "nat r"] by auto
  have "length (nat r # bits) = Suc n" using bits(1) by simp
  moreover have "distinct (nat r # bits)" using bits(2) notin by simp
  moreover have "data_blocks = map (\<lambda>b. ucast (superblock_t.data_region_start sb) + of_nat b) (nat r # bits)"
    using blocks bits(3) r by simp
  moreover have "\<forall>b \<in> set (nat r # bits). b < 8 * length data_bitmap
            \<and> b < unat (ucast (superblock_t.data_region_blocks sb) :: 32 word)
            \<and> \<not> bitmap_bit data_bitmap b"
  proof
    fix b assume "b \<in> set (nat r # bits)"
    then consider "b = nat r" | "b \<in> set bits" by auto
    then show "b < 8 * length data_bitmap
            \<and> b < unat (ucast (superblock_t.data_region_blocks sb) :: 32 word)
            \<and> \<not> bitmap_bit data_bitmap b"
    proof cases
      case 1
      then show ?thesis using f by simp
    next
      case 2
      with bits(4) have "b < 8 * length bm1" "b < unat (ucast (superblock_t.data_region_blocks sb) :: 32 word)"
        "\<not> bitmap_bit bm1 b" by auto
      then show ?thesis using s(3) s(4) [of b] by simp
    qed
  qed
  moreover have "length data_bitmap' = length data_bitmap" using bits(5) s(3) by simp
  moreover have "\<forall>i. bitmap_bit data_bitmap' i \<longleftrightarrow> bitmap_bit data_bitmap i \<or> i \<in> set (nat r # bits)"
    using bits(6) s(4) by auto
  ultimately show ?case by (intro exI [of _ "nat r # bits"] conjI)
qed

lemma allocate_Inr:
  assumes "allocate sb inode_bitmap data_bitmap n = Inr (new_inode_num, data_blocks, inode_bitmap', data_bitmap')"
  shows "\<exists>ibit bits. new_inode_num = of_nat ibit + 1
     \<and> ibit < 8 * length inode_bitmap
     \<and> ibit < unat (ucast (superblock_t.inode_count sb) :: 32 word)
     \<and> \<not> bitmap_bit inode_bitmap ibit
     \<and> find_free_bit inode_bitmap (ucast (superblock_t.inode_count sb)) = Some (int ibit)
     \<and> length inode_bitmap' = length inode_bitmap
     \<and> (\<forall>i. bitmap_bit inode_bitmap' i \<longleftrightarrow> bitmap_bit inode_bitmap i \<or> i = ibit)
     \<and> length bits = n \<and> distinct bits
     \<and> data_blocks = map (\<lambda>b. ucast (superblock_t.data_region_start sb) + of_nat b) bits
     \<and> (\<forall>b \<in> set bits. b < 8 * length data_bitmap
            \<and> b < unat (ucast (superblock_t.data_region_blocks sb) :: 32 word)
            \<and> \<not> bitmap_bit data_bitmap b)
     \<and> length data_bitmap' = length data_bitmap
     \<and> (\<forall>i. bitmap_bit data_bitmap' i \<longleftrightarrow> bitmap_bit data_bitmap i \<or> i \<in> set bits)"
proof -
  from assms obtain r where
    ff: "find_free_bit inode_bitmap (ucast (superblock_t.inode_count sb)) = Some r"
    and r: "0 \<le> r"
    and al: "alloc_data_blocks n sb data_bitmap = Inr (data_blocks, data_bitmap')"
    and sb: "set_bit inode_bitmap r = Some inode_bitmap'"
    and num: "new_inode_num = word_of_int r + 1"
    by (auto simp: allocate_def split: option.splits if_splits sum.splits)
  note f = find_free_bit_nonneg [OF ff r]
  note s = set_bit_Some [OF sb]
  from alloc_data_blocks_Inr [OF al] obtain bits where bits: "length bits = n" "distinct bits"
    "data_blocks = map (\<lambda>b. ucast (superblock_t.data_region_start sb) + of_nat b) bits"
    "\<forall>b \<in> set bits. b < 8 * length data_bitmap
            \<and> b < unat (ucast (superblock_t.data_region_blocks sb) :: 32 word)
            \<and> \<not> bitmap_bit data_bitmap b"
    "length data_bitmap' = length data_bitmap"
    "\<forall>i. bitmap_bit data_bitmap' i \<longleftrightarrow> bitmap_bit data_bitmap i \<or> i \<in> set bits"
    by blast
  have "new_inode_num = of_nat (nat r) + 1" using num r by simp
  moreover have "find_free_bit inode_bitmap (ucast (superblock_t.inode_count sb)) = Some (int (nat r))"
    using ff r by simp
  ultimately show ?thesis
    using f(1,2,3) s(3) s(4) bits
    by (intro exI [of _ "nat r"] exI [of _ bits] conjI allI) simp_all
qed

section \<open>Properties of the update steps\<close>

lemma inode_offset_root [simp]: "inode_offset ROOT_INO = 0"
  by (simp add: inode_offset_def ROOT_INO_def)

lemma update_inode_table_Inr:
  assumes "update_inode_table inode_table num file_size data_blocks now = Inr inode_table'"
  shows "inode_offset num + INODE_SIZE \<le> length inode_table"
    "INODE_SIZE \<le> length inode_table"
    "inode_table' =
       write_bytes 0
         (inode_bytes (inode_crc_finalize
            ((inode_of_bytes (slice 0 INODE_SIZE
                (write_bytes (inode_offset num)
                   (inode_bytes (new_file_inode file_size data_blocks now)) inode_table)))
               \<lparr>links := links (inode_of_bytes (slice 0 INODE_SIZE
                  (write_bytes (inode_offset num)
                     (inode_bytes (new_file_inode file_size data_blocks now)) inode_table))) + 1,
                 mtime := now\<rparr>)))
         (write_bytes (inode_offset num)
            (inode_bytes (new_file_inode file_size data_blocks now)) inode_table)"
  using assms by (auto simp: update_inode_table_def Let_def split: if_splits)

lemma update_inode_table_slices:
  assumes u: "update_inode_table inode_table num file_size data_blocks now = Inr inode_table'"
    and off: "INODE_SIZE \<le> inode_offset num"
  shows "length inode_table' = length inode_table"
    "slice (inode_offset num) INODE_SIZE inode_table'
       = inode_bytes (new_file_inode file_size data_blocks now)"
    "slice 0 INODE_SIZE inode_table'
       = inode_bytes (inode_crc_finalize
           ((inode_of_bytes (slice 0 INODE_SIZE inode_table))
              \<lparr>links := links (inode_of_bytes (slice 0 INODE_SIZE inode_table)) + 1,
                mtime := now\<rparr>))"
    "\<And>a n. INODE_SIZE \<le> a \<Longrightarrow> a + n \<le> inode_offset num \<or> inode_offset num + INODE_SIZE \<le> a
        \<Longrightarrow> slice a n inode_table' = slice a n inode_table"
proof -
  define new where "new = inode_bytes (new_file_inode file_size data_blocks now)"
  define t1 where "t1 = write_bytes (inode_offset num) new inode_table"
  define root where "root = inode_of_bytes (slice 0 INODE_SIZE t1)"
  define rb where "rb = inode_bytes (inode_crc_finalize (root\<lparr>links := links root + 1, mtime := now\<rparr>))"
  note f = update_inode_table_Inr [OF u]
  have ln: "length new = INODE_SIZE" by (simp add: new_def INODE_SIZE_def)
  have lrb: "length rb = INODE_SIZE" by (simp add: rb_def INODE_SIZE_def)
  have b1: "inode_offset num + length new \<le> length inode_table" using f(1) ln by simp
  have lt1: "length t1 = length inode_table"
    unfolding t1_def by (rule length_write_bytes [OF b1])
  have b2: "0 + length rb \<le> length t1" using f(2) lrb lt1 by simp
  have t': "inode_table' = write_bytes 0 rb t1"
    using f(3) by (simp add: rb_def root_def t1_def new_def)
  have r0: "slice 0 INODE_SIZE t1 = slice 0 INODE_SIZE inode_table"
    unfolding t1_def using off by (intro slice_write_bytes_before [OF b1]) simp
  show "length inode_table' = length inode_table"
    unfolding t' using length_write_bytes [OF b2] lt1 by simp
  have "slice (inode_offset num) INODE_SIZE inode_table' = slice (inode_offset num) INODE_SIZE t1"
    unfolding t' using off lrb by (intro slice_write_bytes_after [OF b2]) simp
  also have "\<dots> = new"
    unfolding t1_def using ln by (intro slice_write_bytes_same [OF b1]) simp
  finally show "slice (inode_offset num) INODE_SIZE inode_table'
       = inode_bytes (new_file_inode file_size data_blocks now)"
    by (simp add: new_def)
  have "slice 0 INODE_SIZE inode_table' = rb"
    unfolding t' using lrb by (intro slice_write_bytes_same [OF b2]) simp
  then show "slice 0 INODE_SIZE inode_table'
       = inode_bytes (inode_crc_finalize
           ((inode_of_bytes (slice 0 INODE_SIZE inode_table))
              \<lparr>links := links (inode_of_bytes (slice 0 INODE_SIZE inode_table)) + 1,
                mtime := now\<rparr>))"
    by (simp add: rb_def root_def r0)
  show "slice a n inode_table' = slice a n inode_table"
    if "INODE_SIZE \<le> a" "a + n \<le> inode_offset num \<or> inode_offset num + INODE_SIZE \<le> a" for a n
  proof -
    have "slice a n inode_table' = slice a n t1"
      unfolding t' using that(1) lrb by (intro slice_write_bytes_after [OF b2]) simp
    also have "\<dots> = slice a n inode_table"
      unfolding t1_def using that(2) ln by (intro slice_write_bytes_disjoint [OF b1]) simp
    finally show ?thesis .
  qed
qed

lemma find_from_2_Some_iff:
  "List.find P [2..<n] = Some k \<longleftrightarrow> 2 \<le> k \<and> k < n \<and> P k \<and> (\<forall>i. 2 \<le> i \<and> i < k \<longrightarrow> \<not> P i)"
proof -
  have "List.find P [2..<n] = Some k \<longleftrightarrow>
     (\<exists>i < n - 2. P (2 + i) \<and> k = 2 + i \<and> (\<forall>j < i. \<not> P (2 + j)))"
    by (auto simp: find_Some_iff)
  also have "\<dots> \<longleftrightarrow> 2 \<le> k \<and> k < n \<and> P k \<and> (\<forall>i. 2 \<le> i \<and> i < k \<longrightarrow> \<not> P i)"
  proof (intro iffI)
    assume "\<exists>i < n - 2. P (2 + i) \<and> k = 2 + i \<and> (\<forall>j < i. \<not> P (2 + j))"
    then obtain i where i: "i < n - 2" "P (2 + i)" "k = 2 + i" "\<forall>j < i. \<not> P (2 + j)" by blast
    have "\<not> P m" if "2 \<le> m" "m < k" for m
    proof -
      from that i(3) have "m - 2 < i" "m = 2 + (m - 2)" by simp_all
      with i(4) show ?thesis by metis
    qed
    with i show "2 \<le> k \<and> k < n \<and> P k \<and> (\<forall>i. 2 \<le> i \<and> i < k \<longrightarrow> \<not> P i)" by auto
  next
    assume a: "2 \<le> k \<and> k < n \<and> P k \<and> (\<forall>i. 2 \<le> i \<and> i < k \<longrightarrow> \<not> P i)"
    then have "2 \<le> k" by blast
    then have e: "2 + (k - 2) = k" by arith
    from a have "k - 2 < n - 2" "\<forall>j < k - 2. \<not> P (2 + j)" by auto
    moreover from a e have "P (2 + (k - 2))" "k = 2 + (k - 2)" by simp_all
    ultimately have "k - 2 < n - 2" "P (2 + (k - 2))" "k = 2 + (k - 2)" "\<forall>j < k - 2. \<not> P (2 + j)"
      by blast+
    then show "\<exists>i < n - 2. P (2 + i) \<and> k = 2 + i \<and> (\<forall>j < i. \<not> P (2 + j))" by blast
  qed
  finally show ?thesis .
qed

lemma update_root_directory_Inr:
  assumes "update_root_directory sb inode_table data_region num fname = Inr (inode_table', data_region')"
  shows "\<exists>idx. INODE_SIZE \<le> length inode_table
     \<and> root_dir_offset sb (inode_of_bytes (slice 0 INODE_SIZE inode_table)) + BS \<le> length data_region
     \<and> 2 \<le> idx \<and> idx < BS div dirent_size
     \<and> inode_no (dir_entry data_region
           (root_dir_offset sb (inode_of_bytes (slice 0 INODE_SIZE inode_table))) idx) = 0
     \<and> (\<forall>i. 2 \<le> i \<and> i < idx \<longrightarrow>
           inode_no (dir_entry data_region
             (root_dir_offset sb (inode_of_bytes (slice 0 INODE_SIZE inode_table))) i) \<noteq> 0)
     \<and> data_region' = write_bytes
           (root_dir_offset sb (inode_of_bytes (slice 0 INODE_SIZE inode_table)) + idx * dirent_size)
           (dirent_bytes (new_dir_entry num fname)) data_region
     \<and> inode_table' = write_bytes 0
           (inode_bytes (inode_crc_finalize
              ((inode_of_bytes (slice 0 INODE_SIZE inode_table))
                 \<lparr>size_bytes := size_bytes (inode_of_bytes (slice 0 INODE_SIZE inode_table))
                                  + of_nat dirent_size\<rparr>)))
           inode_table"
proof -
  define root where "root = inode_of_bytes (slice 0 INODE_SIZE inode_table)"
  define doff where "doff = root_dir_offset sb root"
  from assms have b1: "INODE_SIZE \<le> length inode_table"
    by (auto simp: update_root_directory_def Let_def split: if_splits)
  from assms b1 have b2: "doff + BS \<le> length data_region"
    by (auto simp: update_root_directory_def Let_def doff_def root_def split: if_splits)
  obtain idx where fnd: "List.find (\<lambda>i. inode_no (dir_entry data_region doff i) = 0)
         [2..<BS div dirent_size] = Some idx"
    using assms b1 b2
    by (cases "List.find (\<lambda>i. inode_no (dir_entry data_region doff i) = 0) [2..<BS div dirent_size]")
       (simp_all add: update_root_directory_def Let_def doff_def root_def)
  from assms b1 b2 fnd have res:
    "data_region' = write_bytes (doff + idx * dirent_size)
           (dirent_bytes (new_dir_entry num fname)) data_region"
    "inode_table' = write_bytes 0
           (inode_bytes (inode_crc_finalize (root\<lparr>size_bytes := size_bytes root + of_nat dirent_size\<rparr>)))
           inode_table"
    by (simp_all add: update_root_directory_def Let_def doff_def root_def)
  from fnd have "2 \<le> idx" "idx < BS div dirent_size" "inode_no (dir_entry data_region doff idx) = 0"
    "\<forall>i. 2 \<le> i \<and> i < idx \<longrightarrow> inode_no (dir_entry data_region doff i) \<noteq> 0"
    unfolding find_from_2_Some_iff by simp_all
  with b1 b2 res show ?thesis
    unfolding doff_def root_def by (intro exI [of _ idx] conjI)
qed

lemma dvd_unat_times_4096: "(4096 :: nat) dvd unat (x * 4096 :: 32 word)"
proof -
  have "(2 :: nat) ^ 32 = 4096 * 2 ^ 20" by simp
  then have "(4096 :: nat) dvd 2 ^ 32" by (metis dvd_triv_left)
  then have "(4096 :: nat) dvd (unat x * 4096) mod 2 ^ 32"
    by (intro dvd_mod) simp_all
  then show ?thesis by (simp add: unat_word_ariths)
qed

lemma BS_dvd_block_offset: "BS dvd block_offset sb p"
  unfolding block_offset_def BS_def of_nat_numeral by (rule dvd_unat_times_4096)

lemma BS_multiples_disjoint:
  assumes "BS dvd a" "BS dvd b" "a \<noteq> b"
  shows "a + BS \<le> b \<or> b + BS \<le> a"
proof -
  from assms obtain x y where xy: "a = BS * x" "b = BS * y" by (auto elim!: dvdE)
  with assms(3) have "x \<noteq> y" by auto
  then consider "x < y" | "y < x" by linarith
  then show ?thesis
  proof cases
    case 1
    then have "Suc x \<le> y" by simp
    then have "BS * Suc x \<le> BS * y" by (rule mult_le_mono2)
    then show ?thesis using xy by simp
  next
    case 2
    then have "Suc y \<le> x" by simp
    then have "BS * Suc y \<le> BS * x" by (rule mult_le_mono2)
    then show ?thesis using xy by simp
  qed
qed

lemma write_file_blocks_length:
  assumes "write_file_blocks content bn sb ps data_region = Inr data_region'"
    and "\<forall>(i, p) \<in> set ps. length (file_block content bn i) = BS"
  shows "length data_region' = length data_region
     \<and> (\<forall>(i, p) \<in> set ps. block_offset sb p + BS \<le> length data_region)"
  using assms
proof (induction ps arbitrary: data_region)
  case Nil
  then show ?case by simp
next
  case (Cons ip ps)
  obtain i p where ip: "ip = (i, p)" by (cases ip)
  from Cons.prems(1) have b: "block_offset sb p + BS \<le> length data_region"
    by (auto simp: ip split: if_splits)
  define d1 where "d1 = write_bytes (block_offset sb p) (file_block content bn i) data_region"
  have lf: "length (file_block content bn i) = BS" using Cons.prems(2) ip by simp
  have l1: "length d1 = length data_region"
    unfolding d1_def using b lf by (intro length_write_bytes) simp
  from Cons.prems(1) b have rec: "write_file_blocks content bn sb ps d1 = Inr data_region'"
    by (simp add: ip d1_def)
  from Cons.IH [OF rec] Cons.prems(2) have "length data_region' = length d1"
    "\<forall>(i, p) \<in> set ps. block_offset sb p + BS \<le> length d1" by auto
  with l1 b show ?case by (auto simp: ip)
qed

lemma write_file_blocks_frame:
  assumes "write_file_blocks content bn sb ps data_region = Inr data_region'"
    and "\<forall>(i, p) \<in> set ps. length (file_block content bn i) = BS"
    and "\<forall>(i, p) \<in> set ps. a + n \<le> block_offset sb p \<or> block_offset sb p + BS \<le> a"
  shows "slice a n data_region' = slice a n data_region"
  using assms
proof (induction ps arbitrary: data_region)
  case Nil
  then show ?case by simp
next
  case (Cons ip ps)
  obtain i p where ip: "ip = (i, p)" by (cases ip)
  from Cons.prems(1) have b: "block_offset sb p + BS \<le> length data_region"
    by (auto simp: ip split: if_splits)
  define d1 where "d1 = write_bytes (block_offset sb p) (file_block content bn i) data_region"
  have lf: "length (file_block content bn i) = BS" using Cons.prems(2) ip by simp
  from Cons.prems(1) b have rec: "write_file_blocks content bn sb ps d1 = Inr data_region'"
    by (simp add: ip d1_def)
  have "slice a n data_region' = slice a n d1"
    using Cons.IH [OF rec] Cons.prems(2,3) by auto
  also have "\<dots> = slice a n data_region"
    unfolding d1_def using b lf Cons.prems(3) ip
    by (intro slice_write_bytes_disjoint) auto
  finally show ?case .
qed

lemma write_file_blocks_written:
  assumes "write_file_blocks content bn sb ps data_region = Inr data_region'"
    and "\<forall>(i, p) \<in> set ps. length (file_block content bn i) = BS"
    and "distinct (map (\<lambda>(i, p). block_offset sb p) ps)"
    and "(i, p) \<in> set ps"
  shows "slice (block_offset sb p) BS data_region' = file_block content bn i"
  using assms
proof (induction ps arbitrary: data_region)
  case Nil
  then show ?case by simp
next
  case (Cons jq ps)
  obtain j q where jq: "jq = (j, q)" by (cases jq)
  from Cons.prems(1) have b: "block_offset sb q + BS \<le> length data_region"
    by (auto simp: jq split: if_splits)
  define d1 where "d1 = write_bytes (block_offset sb q) (file_block content bn j) data_region"
  have lf: "length (file_block content bn j) = BS" using Cons.prems(2) jq by simp
  from Cons.prems(1) b have rec: "write_file_blocks content bn sb ps d1 = Inr data_region'"
    by (simp add: jq d1_def)
  have all: "\<forall>(i, p) \<in> set ps. length (file_block content bn i) = BS"
    using Cons.prems(2) by auto
  have dist: "distinct (map (\<lambda>(i, p). block_offset sb p) ps)"
    and notin: "block_offset sb q \<notin> (\<lambda>(i, p). block_offset sb p) ` set ps"
    using Cons.prems(3) by (simp_all add: jq)
  show ?case
  proof (cases "(i, p) \<in> set ps")
    case True
    from Cons.IH [OF rec all dist True] show ?thesis .
  next
    case False
    with Cons.prems(4) have e: "i = j" "p = q" by (simp_all add: jq)
    have "\<forall>(i', p') \<in> set ps. block_offset sb q + BS \<le> block_offset sb p'
            \<or> block_offset sb p' + BS \<le> block_offset sb q"
    proof (clarify)
      fix i' p' assume m: "(i', p') \<in> set ps"
        and n: "\<not> block_offset sb p' + BS \<le> block_offset sb q"
      from m notin have "block_offset sb q \<noteq> block_offset sb p'" by force
      from BS_multiples_disjoint [OF BS_dvd_block_offset BS_dvd_block_offset this] n
      show "block_offset sb q + BS \<le> block_offset sb p'" by simp
    qed
    from write_file_blocks_frame [OF rec all this]
    have "slice (block_offset sb q) BS data_region' = slice (block_offset sb q) BS d1" .
    also have "\<dots> = file_block content bn j"
      unfolding d1_def using b lf by (intro slice_write_bytes_same) simp_all
    finally show ?thesis by (simp add: e)
  qed
qed

lemma length_file_block:
  assumes "0 < length content" "bn = (length content + BS - 1) div BS" "i < bn"
  shows "length (file_block content bn i) = BS"
proof -
  have bs: "0 < BS" by (simp add: BS_def)
  have "length content + BS - 1 < BS + (length content + BS - 1) div BS * BS"
    using bs by (rule dividend_less_div_times)
  then have up: "length content \<le> bn * BS"
    using assms(2) by simp
  have "(length content + BS - 1) div BS * BS \<le> length content + BS - 1"
    by (rule div_times_less_eq_dividend)
  then have "bn * BS \<le> length content + BS - 1"
    using assms(2) by simp
  moreover have "bn * BS = (bn - 1) * BS + BS"
    using assms(3) by (simp add: diff_mult_distrib)
  ultimately have low: "(bn - 1) * BS < length content"
    using assms(1) bs by linarith
  show ?thesis
  proof (cases "i = bn - 1")
    case True
    have "length content - i * BS \<le> BS"
      using up assms(3) True by (simp add: diff_mult_distrib)
    moreover have "i * BS + (length content - i * BS) \<le> length content"
      using low True by simp
    ultimately show ?thesis
      using True by (simp add: file_block_def Let_def slice_def)
  next
    case False
    with assms(3) have "i + 1 \<le> bn - 1" by simp
    then have "(i + 1) * BS \<le> (bn - 1) * BS" by (rule mult_le_mono1)
    with low have "i * BS + BS \<le> length content" by simp
    then show ?thesis
      using False by (simp add: file_block_def Let_def slice_def)
  qed
qed

section \<open>Successful and failing runs of the injector\<close>

lemma fread_blocks_Some:
  assumes "fread_blocks n stream = Some (buf, rest)"
  shows "n * BS \<le> length stream" "buf = take (n * BS) stream" "rest = drop (n * BS) stream"
  using assms by (auto simp: fread_blocks_def split: if_splits)

lemma add_file_Inr:
  assumes "add_file img content fname now adjacent = Inr (out, num)"
  shows "\<exists>data_blocks ibm' dbm' itab1 itab2 dreg1 dreg2.
      read_image_header img = Inr (image_superblock img, image_inode_bitmap img,
         image_data_bitmap img, drop (3 * BS) img)
    \<and> (3 + unat (superblock_t.inode_table_blocks (image_superblock img))
          + unat (superblock_t.data_region_blocks (image_superblock img))) * BS \<le> length img
    \<and> allocate (image_superblock img) (image_inode_bitmap img) (image_data_bitmap img)
          (unat (blocks_needed (of_nat (length content)))) = Inr (num, data_blocks, ibm', dbm')
    \<and> update_inode_table (image_inode_table img) num (of_nat (length content)) data_blocks now
          = Inr itab1
    \<and> update_root_directory (image_superblock img) itab1 (image_data_region img) num fname
          = Inr (itab2, dreg1)
    \<and> write_file_blocks content (unat (blocks_needed (of_nat (length content))))
          (image_superblock img)
          (zip [0..<unat (blocks_needed (of_nat (length content)))] data_blocks) dreg1 = Inr dreg2
    \<and> out = superblock_block
               (fst (superblock_crc_finalize ((image_superblock img)\<lparr>mtime_epoch := now\<rparr>) adjacent))
             @ ibm' @ dbm' @ itab2 @ dreg2"
proof -
  define bn where "bn = unat (blocks_needed (of_nat (length content)))"
  define fsize :: "64 word" where "fsize = of_nat (length content)"
  note af = assms [unfolded add_file_def Let_def, folded fsize_def, folded bn_def [unfolded fsize_def [symmetric]]]
  obtain sb ibm dbm s3 where hdr: "read_image_header img = Inr (sb, ibm, dbm, s3)"
    using af by (cases "read_image_header img") auto
  note h = read_image_header_Inr [OF hdr]
  note af1 = af [unfolded hdr sum.case prod.case]
  obtain num' data_blocks ibm' dbm' where
    al: "allocate sb ibm dbm bn = Inr (num', data_blocks, ibm', dbm')"
    using af1 by (cases "allocate sb ibm dbm bn") auto
  note af2 = af1 [unfolded al sum.case prod.case]
  obtain itab s4 where r1: "fread_blocks (unat (superblock_t.inode_table_blocks sb)) s3 = Some (itab, s4)"
    using af2 by (cases "fread_blocks (unat (superblock_t.inode_table_blocks sb)) s3") auto
  note af3 = af2 [unfolded r1 option.case prod.case]
  obtain itab1 where u1: "update_inode_table itab num' fsize data_blocks now = Inr itab1"
    using af3 by (cases "update_inode_table itab num' fsize data_blocks now") auto
  note af4 = af3 [unfolded u1 sum.case]
  obtain dreg s5 where r2: "fread_blocks (unat (superblock_t.data_region_blocks sb)) s4 = Some (dreg, s5)"
    using af4 by (cases "fread_blocks (unat (superblock_t.data_region_blocks sb)) s4") auto
  note af5 = af4 [unfolded r2 option.case prod.case]
  obtain itab2 dreg1 where u2: "update_root_directory sb itab1 dreg num' fname = Inr (itab2, dreg1)"
    using af5 by (cases "update_root_directory sb itab1 dreg num' fname") auto
  note af6 = af5 [unfolded u2 sum.case prod.case]
  obtain dreg2 where w: "write_file_blocks content bn sb (zip [0..<bn] data_blocks) dreg1 = Inr dreg2"
    using af6 by (cases "write_file_blocks content bn sb (zip [0..<bn] data_blocks) dreg1") auto
  note af7 = af6 [unfolded w sum.case]
  from af7 have out: "out = superblock_block
               (fst (superblock_crc_finalize (sb\<lparr>mtime_epoch := now\<rparr>) adjacent))
             @ ibm' @ dbm' @ itab2 @ dreg2" and num: "num' = num"
    by simp_all
  note f1 = fread_blocks_Some [OF r1]
  note f2 = fread_blocks_Some [OF r2]
  have len: "(3 + unat (superblock_t.inode_table_blocks sb)
          + unat (superblock_t.data_region_blocks sb)) * BS \<le> length img"
    using f1(1) f2(1) h(1) unfolding f1(3) h(6) by (simp add: add_mult_distrib)
  have itab: "itab = image_inode_table img"
    unfolding f1(2) h(6) image_inode_table_def slice_def h(2) ..
  have dreg: "dreg = image_data_region img"
    unfolding f2(2) f1(3) h(6) image_data_region_def slice_def h(2) [symmetric]
    by (simp add: add_mult_distrib add.commute)
  show ?thesis
    using hdr len al u1 u2 w out
    unfolding num itab dreg bn_def fsize_def h(6)
    unfolding h(2) h(4) h(5)
    by (intro exI [of _ data_blocks] exI [of _ ibm'] exI [of _ dbm'] exI [of _ itab1]
        exI [of _ itab2] exI [of _ dreg1] exI [of _ dreg2] conjI)
qed

lemma read_file_content_Inr:
  assumes "read_file_content fs path = Inr (content, file_size)"
  shows "fs path = Some content" "length content < 2 ^ 63" "file_size = of_nat (length content)"
  using assms by (auto simp: read_file_content_def split: option.splits if_splits)

lemma mkfs_adder_Inr:
  assumes "mkfs_adder argv now adjacent fs = (Inr num, fs')"
  shows "\<exists>args content img out.
      parse_cli_args_adder argv = Inr args
    \<and> fs (the (filename args)) = Some content
    \<and> content \<noteq> [] \<and> length content < 2 ^ 63
    \<and> blocks_needed (of_nat (length content)) \<le> of_nat DIRECT_MAX
    \<and> fs (the (input_image args)) = Some img
    \<and> add_file img content (extract_filename (the (filename args))) now adjacent = Inr (out, num)
    \<and> fs' = fs(the (output_image args) \<mapsto> out)"
proof -
  note m = assms [unfolded mkfs_adder_def]
  obtain args where p: "parse_cli_args_adder argv = Inr args"
    using m by (cases "parse_cli_args_adder argv") auto
  note m1 = m [unfolded p sum.case]
  obtain content file_size where rf: "read_file_content fs (the (filename args)) = Inr (content, file_size)"
    using m1 by (cases "read_file_content fs (the (filename args))") auto
  note r = read_file_content_Inr [OF rf]
  note m2 = m1 [unfolded rf sum.case prod.case]
  have nz: "file_size \<noteq> 0" using m2 by (cases "file_size = 0") simp_all
  have small: "\<not> blocks_needed file_size > of_nat DIRECT_MAX"
    using m2 nz by (cases "blocks_needed file_size > of_nat DIRECT_MAX") simp_all
  note m3 = m2 [simplified nz small if_False]
  obtain img where i: "fs (the (input_image args)) = Some img"
    using m3 by (cases "fs (the (input_image args))") auto
  note m4 = m3 [unfolded i option.case]
  obtain out num' where a: "add_file img content (extract_filename (the (filename args))) now adjacent = Inr (out, num')"
    using m4 by (cases "add_file img content (extract_filename (the (filename args))) now adjacent") auto
  from m4 a have e: "num' = num" "fs' = fs(the (output_image args) \<mapsto> out)" by simp_all
  have "content \<noteq> []" using nz r(3) by auto
  with p r(1,2) small i a e show ?thesis
    unfolding r(3) by (intro exI [of _ args] exI [of _ content] exI [of _ img] exI [of _ out] conjI)
      (simp_all add: not_less)
qed

lemma mkfs_adder_Inl:
  assumes "mkfs_adder argv now adjacent fs = (Inl e, fs')"
  shows "fs' = fs"
  using assms unfolding mkfs_adder_def
  by (auto split: sum.splits option.splits if_splits prod.splits)

lemma blocks_needed_unat:
  assumes "n < 2 ^ 63"
  shows "unat (blocks_needed (of_nat n)) = (n + BS - 1) div BS"
proof -
  have n: "unat (of_nat n :: 64 word) = n"
    using assms by (simp add: unat_of_nat)
  have e: "(of_nat n :: 64 word) + of_nat BS - 1 = of_nat n + 4095"
    by (simp add: BS_def)
  have u: "unat ((of_nat n :: 64 word) + 4095) = n + 4095"
    using assms n by (simp add: unat_word_ariths)
  have "unat (blocks_needed (of_nat n)) = unat ((of_nat n :: 64 word) + 4095) div 4096"
    unfolding blocks_needed_def e by (simp add: unat_div BS_def)
  also have "\<dots> = (n + BS - 1) div BS"
    unfolding u by (simp add: BS_def)
  finally show ?thesis .
qed

lemma blocks_needed_le_iff:
  assumes "n < 2 ^ 63"
  shows "blocks_needed (of_nat n) \<le> of_nat DIRECT_MAX \<longleftrightarrow> n \<le> DIRECT_MAX * BS"
proof -
  have "blocks_needed (of_nat n) \<le> of_nat DIRECT_MAX \<longleftrightarrow> (n + BS - 1) div BS \<le> 12"
    using blocks_needed_unat [OF assms] by (simp add: word_le_nat_alt DIRECT_MAX_def)
  also have "\<dots> \<longleftrightarrow> n \<le> DIRECT_MAX * BS"
    by (simp add: BS_def DIRECT_MAX_def) arith
  finally show ?thesis .
qed

section \<open>Regions and offsets of an image\<close>

lemma length_superblock_block [simp]: "length (superblock_block sb) = BS"
  by (simp add: superblock_block_def BS_def)

lemma take_116_superblock_block [simp]: "take 116 (superblock_block sb) = superblock_bytes sb"
  by (simp add: superblock_block_def)

lemma image_regions_append:
  assumes "length blk0 = BS" "length ibm = BS" "length dbm = BS"
    and "superblock_of_bytes (take 116 blk0) = sb"
    and "length itab = unat (superblock_t.inode_table_blocks sb) * BS"
    and "length dreg = unat (superblock_t.data_region_blocks sb) * BS"
  shows "image_superblock (blk0 @ ibm @ dbm @ itab @ dreg) = sb"
    "image_inode_bitmap (blk0 @ ibm @ dbm @ itab @ dreg) = ibm"
    "image_data_bitmap (blk0 @ ibm @ dbm @ itab @ dreg) = dbm"
    "image_inode_table (blk0 @ ibm @ dbm @ itab @ dreg) = itab"
    "image_data_region (blk0 @ ibm @ dbm @ itab @ dreg) = dreg"
    "length (blk0 @ ibm @ dbm @ itab @ dreg)
       = (3 + unat (superblock_t.inode_table_blocks sb)
            + unat (superblock_t.data_region_blocks sb)) * BS"
proof -
  have bs: "116 \<le> BS" by (simp add: BS_def)
  show s: "image_superblock (blk0 @ ibm @ dbm @ itab @ dreg) = sb"
    using assms(1,4) bs by (simp add: image_superblock_def)
  show "image_inode_bitmap (blk0 @ ibm @ dbm @ itab @ dreg) = ibm"
    using assms(1,2) by (simp add: image_inode_bitmap_def slice_def)
  show "image_data_bitmap (blk0 @ ibm @ dbm @ itab @ dreg) = dbm"
    using assms(1,2,3) by (simp add: image_data_bitmap_def slice_def)
  show "image_inode_table (blk0 @ ibm @ dbm @ itab @ dreg) = itab"
    unfolding image_inode_table_def s using assms(1,2,3,5) by (simp add: slice_def)
  show "image_data_region (blk0 @ ibm @ dbm @ itab @ dreg) = dreg"
    unfolding image_data_region_def s using assms(1,2,3,5,6)
    by (simp add: slice_def add_mult_distrib)
  show "length (blk0 @ ibm @ dbm @ itab @ dreg)
       = (3 + unat (superblock_t.inode_table_blocks sb)
            + unat (superblock_t.data_region_blocks sb)) * BS"
    using assms by (simp add: add_mult_distrib)
qed

lemma image_region_lengths:
  assumes "(3 + unat (superblock_t.inode_table_blocks (image_superblock img))
          + unat (superblock_t.data_region_blocks (image_superblock img))) * BS \<le> length img"
  shows "length (image_inode_bitmap img) = BS" "length (image_data_bitmap img) = BS"
    "length (image_inode_table img)
       = unat (superblock_t.inode_table_blocks (image_superblock img)) * BS"
    "length (image_data_region img)
       = unat (superblock_t.data_region_blocks (image_superblock img)) * BS"
  using assms
  by (simp_all add: image_inode_bitmap_def image_data_bitmap_def image_inode_table_def
      image_data_region_def slice_def add_mult_distrib)

lemma unat_ucast_64_32:
  "unat (w :: 64 word) < 2 ^ 32 \<Longrightarrow> unat (ucast w :: 32 word) = unat w"
  by (simp add: unsigned_ucast_eq take_bit_nat_eq_self_iff)

lemma unat_of_nat_32: "n < 2 ^ 32 \<Longrightarrow> unat (of_nat n :: 32 word) = n"
  by (simp add: unat_of_nat)

lemma inode_offset_of_bit:
  assumes "ibit < 2 ^ 25"
  shows "inode_offset (of_nat ibit + 1) = ibit * INODE_SIZE"
proof -
  have "((of_nat ibit :: 32 word) + 1 - 1) * of_nat INODE_SIZE = of_nat (ibit * 128)"
    by (simp add: INODE_SIZE_def)
  moreover have "ibit * 128 < 2 ^ 32" using assms by simp
  ultimately show ?thesis
    unfolding inode_offset_def by (simp only: unat_of_nat_32) (simp add: INODE_SIZE_def)
qed

lemma block_offset_of_bit:
  assumes "b < 2 ^ 20"
  shows "block_offset sb (ucast (superblock_t.data_region_start sb) + of_nat b) = b * BS"
proof -
  have "(ucast (superblock_t.data_region_start sb) + (of_nat b :: 32 word)
           - ucast (superblock_t.data_region_start sb)) * of_nat BS = of_nat (b * 4096)"
    by (simp add: BS_def)
  moreover have "b * 4096 < 2 ^ 32" using assms by simp
  ultimately show ?thesis
    unfolding block_offset_def by (simp only: unat_of_nat_32) (simp add: BS_def)
qed

lemma root_dir_offset_nat:
  assumes "unat (superblock_t.data_region_start sb) < 2 ^ 32"
    and "unat (superblock_t.data_region_start sb) \<le> unat (direct root ! 0)"
    and "unat (direct root ! 0) - unat (superblock_t.data_region_start sb) < 2 ^ 20"
  shows "root_dir_offset sb root
           = (unat (direct root ! 0) - unat (superblock_t.data_region_start sb)) * BS"
proof -
  define d where "d = unat (direct root ! 0) - unat (superblock_t.data_region_start sb)"
  have s: "unat (ucast (superblock_t.data_region_start sb) :: 32 word)
             = unat (superblock_t.data_region_start sb)"
    by (rule unat_ucast_64_32 [OF assms(1)])
  have le: "(ucast (superblock_t.data_region_start sb) :: 32 word) \<le> direct root ! 0"
    using assms(2) s by (simp add: word_le_nat_alt)
  have "unat (direct root ! 0 - ucast (superblock_t.data_region_start sb)) = d"
    using le s by (simp add: unat_sub d_def)
  then have "direct root ! 0 - ucast (superblock_t.data_region_start sb) = (of_nat d :: 32 word)"
    by (metis of_nat_unat ucast_id)
  then have "(direct root ! 0 - ucast (superblock_t.data_region_start sb)) * of_nat BS
               = (of_nat (d * 4096) :: 32 word)"
    by (simp add: BS_def)
  moreover have "d * 4096 < 2 ^ 32" using assms(3) d_def by simp
  ultimately show ?thesis
    unfolding root_dir_offset_def d_def [symmetric]
    by (simp only: unat_of_nat_32) (simp add: BS_def)
qed

section \<open>The effect of a successful injection on a valid image\<close>

lemma valid_image_geometry:
  assumes "valid_image img"
  shows "magic (image_superblock img) = MAGIC_NUMBER"
    "unat (superblock_t.data_region_start (image_superblock img))
       = 3 + unat (superblock_t.inode_table_blocks (image_superblock img))"
    "unat (superblock_t.data_region_start (image_superblock img))
       + unat (superblock_t.data_region_blocks (image_superblock img)) < 2 ^ 32"
    "length img = (3 + unat (superblock_t.inode_table_blocks (image_superblock img))
       + unat (superblock_t.data_region_blocks (image_superblock img))) * BS"
    "unat (superblock_t.inode_count (image_superblock img)) \<le> 8 * BS"
    "unat (superblock_t.inode_count (image_superblock img))
       \<le> unat (superblock_t.inode_table_blocks (image_superblock img)) * (BS div INODE_SIZE)"
    "1 \<le> unat (superblock_t.data_region_blocks (image_superblock img))"
    "unat (superblock_t.data_region_blocks (image_superblock img)) \<le> 8 * BS"
    "unat (superblock_t.data_region_start (image_superblock img))
       \<le> unat (direct (image_inode img 1) ! 0)"
    "unat (direct (image_inode img 1) ! 0)
       < unat (superblock_t.data_region_start (image_superblock img))
         + unat (superblock_t.data_region_blocks (image_superblock img))"
  using assms unfolding valid_image_def image_geometry_def Let_def by simp_all

lemma valid_image_lengths:
  assumes "valid_image img"
  shows "length (image_inode_bitmap img) = BS" "length (image_data_bitmap img) = BS"
    "length (image_inode_table img)
       = unat (superblock_t.inode_table_blocks (image_superblock img)) * BS"
    "length (image_data_region img)
       = unat (superblock_t.data_region_blocks (image_superblock img)) * BS"
  using valid_image_geometry(4) [OF assms]
  by (simp_all add: image_region_lengths)

lemma valid_image_root_block:
  assumes "valid_image img"
  shows "image_root_dir_block img < unat (superblock_t.data_region_blocks (image_superblock img))"
    "unat (direct (image_inode img 1) ! 0)
       = unat (superblock_t.data_region_start (image_superblock img)) + image_root_dir_block img"
  using valid_image_geometry(9,10) [OF assms]
  by (simp_all add: image_root_dir_block_def)

lemma valid_image_root_bits:
  assumes "valid_image img"
  shows "bitmap_bit (image_inode_bitmap img) 0"
    "bitmap_bit (image_data_bitmap img) (image_root_dir_block img)"
proof -
  from assms have c: "bitmaps_consistent img" by (simp add: valid_image_def)
  have bs: "0 < 8 * BS" by (simp add: BS_def)
  have "inode_allocated img (0 + 1)" by (simp add: inode_allocated_def ROOT_INO_def)
  with c bs show "bitmap_bit (image_inode_bitmap img) 0"
    unfolding bitmaps_consistent_def Let_def by blast
  note r = valid_image_root_block [OF assms]
  note g = valid_image_geometry [OF assms]
  have lt: "image_root_dir_block img < 8 * BS" using r(1) g(8) by simp
  have "\<exists>n j. inode_allocated img n \<and> j < DIRECT_MAX
          \<and> unat (direct (image_inode img n) ! j)
              = unat (superblock_t.data_region_start (image_superblock img))
                + image_root_dir_block img"
    using r(2)
    by (intro exI [of _ "1 :: nat"] exI [of _ "0 :: nat"])
       (simp add: inode_allocated_def ROOT_INO_def DIRECT_MAX_def)
  moreover have "unat (superblock_t.data_region_start (image_superblock img))
          + image_root_dir_block img \<noteq> 0" using g(2) by simp
  ultimately have "block_allocated img (unat (superblock_t.data_region_start (image_superblock img))
          + image_root_dir_block img)"
    unfolding block_allocated_def by (rule conjI [rotated])
  with c lt show "bitmap_bit (image_data_bitmap img) (image_root_dir_block img)"
    unfolding bitmaps_consistent_def Let_def by blast
qed

lemma direct_inode_crc_finalize [simp]: "direct (inode_crc_finalize ino) = direct ino"
  by (simp add: inode_crc_finalize_def Let_def)

lemma add_file_effect:
  assumes v: "valid_image img"
    and a: "add_file img content fname now adjacent = Inr (out, num)"
    and c: "content \<noteq> []" "length content \<le> DIRECT_MAX * BS"
  shows "\<exists>ibit bits idx ibm' dbm' itab' dreg'.
      out = superblock_block
              (fst (superblock_crc_finalize ((image_superblock img)\<lparr>mtime_epoch := now\<rparr>) adjacent))
            @ ibm' @ dbm' @ itab' @ dreg'
    \<and> length ibm' = BS \<and> length dbm' = BS
    \<and> length itab' = length (image_inode_table img)
    \<and> length dreg' = length (image_data_region img)
    \<and> num = of_nat ibit + 1 \<and> 1 \<le> ibit
    \<and> ibit < unat (superblock_t.inode_count (image_superblock img))
    \<and> \<not> bitmap_bit (image_inode_bitmap img) ibit
    \<and> (\<forall>i. bitmap_bit ibm' i \<longleftrightarrow> bitmap_bit (image_inode_bitmap img) i \<or> i = ibit)
    \<and> length bits = (length content + BS - 1) div BS \<and> distinct bits
    \<and> (\<forall>b \<in> set bits. b < unat (superblock_t.data_region_blocks (image_superblock img))
           \<and> \<not> bitmap_bit (image_data_bitmap img) b \<and> b \<noteq> image_root_dir_block img)
    \<and> (\<forall>i. bitmap_bit dbm' i \<longleftrightarrow> bitmap_bit (image_data_bitmap img) i \<or> i \<in> set bits)
    \<and> 2 \<le> idx \<and> idx < BS div dirent_size
    \<and> inode_no (image_dir_entry img idx) = 0
    \<and> (\<forall>i. 2 \<le> i \<and> i < idx \<longrightarrow> inode_no (image_dir_entry img i) \<noteq> 0)
    \<and> slice 0 INODE_SIZE itab'
        = inode_bytes (inode_crc_finalize
            ((inode_crc_finalize ((image_inode img 1)
                \<lparr>links := links (image_inode img 1) + 1, mtime := now\<rparr>))
              \<lparr>size_bytes := size_bytes (image_inode img 1) + of_nat dirent_size\<rparr>))
    \<and> slice (ibit * INODE_SIZE) INODE_SIZE itab'
        = inode_bytes (new_file_inode (of_nat (length content))
            (map (\<lambda>b. ucast (superblock_t.data_region_start (image_superblock img)) + of_nat b) bits)
            now)
    \<and> (\<forall>a n. INODE_SIZE \<le> a \<and> (a + n \<le> ibit * INODE_SIZE \<or> ibit * INODE_SIZE + INODE_SIZE \<le> a)
          \<longrightarrow> slice a n itab' = slice a n (image_inode_table img))
    \<and> (\<forall>j < length bits. slice (bits ! j * BS) BS dreg'
          = file_block content (length bits) j)
    \<and> slice (image_root_dir_block img * BS + idx * dirent_size) dirent_size dreg'
        = dirent_bytes (new_dir_entry num fname)
    \<and> (\<forall>a n. (a + n \<le> image_root_dir_block img * BS + idx * dirent_size
                \<or> image_root_dir_block img * BS + idx * dirent_size + dirent_size \<le> a)
             \<and> (\<forall>b \<in> set bits. a + n \<le> b * BS \<or> b * BS + BS \<le> a)
          \<longrightarrow> slice a n dreg' = slice a n (image_data_region img))"
proof -
  define sb where "sb = image_superblock img"
  define ibm where "ibm = image_inode_bitmap img"
  define dbm where "dbm = image_data_bitmap img"
  define itab where "itab = image_inode_table img"
  define dreg where "dreg = image_data_region img"
  define root where "root = image_inode img 1"
  define rb where "rb = image_root_dir_block img"
  define bn where "bn = (length content + BS - 1) div BS"
  define fsize :: "64 word" where "fsize = of_nat (length content)"
  note g = valid_image_geometry [OF v, folded sb_def root_def]
  note l = valid_image_lengths [OF v, folded sb_def ibm_def dbm_def itab_def dreg_def]
  note rblk = valid_image_root_block [OF v, folded sb_def rb_def root_def]
  note rbits = valid_image_root_bits [OF v, folded ibm_def dbm_def rb_def]
  have bs: "BS = 4096" by (simp add: BS_def)
  have small: "length content < 2 ^ 63" using c(2) by (simp add: DIRECT_MAX_def BS_def)
  have bnu: "unat (blocks_needed (of_nat (length content))) = bn"
    unfolding bn_def by (rule blocks_needed_unat [OF small])
  have root_slice: "root = inode_of_bytes (slice 0 INODE_SIZE itab)"
    by (simp add: root_def image_inode_def image_inode_bytes_def itab_def)
  from add_file_Inr [OF a, unfolded bnu, folded sb_def ibm_def dbm_def itab_def dreg_def fsize_def]
  obtain data_blocks ibm' dbm' itab1 itab2 dreg1 dreg2 where
    al: "allocate sb ibm dbm bn = Inr (num, data_blocks, ibm', dbm')"
    and u1: "update_inode_table itab num fsize data_blocks now = Inr itab1"
    and u2: "update_root_directory sb itab1 dreg num fname = Inr (itab2, dreg1)"
    and w: "write_file_blocks content bn sb (zip [0..<bn] data_blocks) dreg1 = Inr dreg2"
    and out: "out = superblock_block (fst (superblock_crc_finalize (sb\<lparr>mtime_epoch := now\<rparr>) adjacent))
             @ ibm' @ dbm' @ itab2 @ dreg2"
    by blast
  \<comment> \<open>allocation\<close>
  from allocate_Inr [OF al] obtain ibit bits where
    num: "num = of_nat ibit + 1"
    and ib: "ibit < 8 * length ibm" "ibit < unat (ucast (superblock_t.inode_count sb) :: 32 word)"
      "\<not> bitmap_bit ibm ibit"
    and libm': "length ibm' = length ibm"
    and ibm': "\<forall>i. bitmap_bit ibm' i \<longleftrightarrow> bitmap_bit ibm i \<or> i = ibit"
    and lbits: "length bits = bn" and dist: "distinct bits"
    and blocks: "data_blocks = map (\<lambda>b. ucast (superblock_t.data_region_start sb) + of_nat b) bits"
    and bb: "\<forall>b \<in> set bits. b < 8 * length dbm
            \<and> b < unat (ucast (superblock_t.data_region_blocks sb) :: 32 word)
            \<and> \<not> bitmap_bit dbm b"
    and ldbm': "length dbm' = length dbm"
    and dbm': "\<forall>i. bitmap_bit dbm' i \<longleftrightarrow> bitmap_bit dbm i \<or> i \<in> set bits"
    by blast
  have cnt32: "unat (ucast (superblock_t.inode_count sb) :: 32 word) = unat (superblock_t.inode_count sb)"
    using g(5) by (intro unat_ucast_64_32) (simp add: bs)
  have drb32: "unat (ucast (superblock_t.data_region_blocks sb) :: 32 word)
                 = unat (superblock_t.data_region_blocks sb)"
    using g(8) by (intro unat_ucast_64_32) (simp add: bs)
  have ib1: "1 \<le> ibit" using ib(3) rbits(1) by (cases "ibit = 0") simp_all
  have ib_small: "ibit < 2 ^ 25" using ib(1) l(1) by (simp add: bs)
  have ioff: "inode_offset num = ibit * INODE_SIZE"
    unfolding num by (rule inode_offset_of_bit [OF ib_small])
  have bits_ok: "\<forall>b \<in> set bits. b < unat (superblock_t.data_region_blocks sb)
           \<and> \<not> bitmap_bit dbm b \<and> b \<noteq> rb"
    using bb rbits(2) drb32 by auto
  have bits_small: "b < 2 ^ 20" if "b \<in> set bits" for b
    using bb that l(2) by (auto simp: bs)
  \<comment> \<open>inode table\<close>
  have off1: "INODE_SIZE \<le> inode_offset num" using ib1 ioff by simp
  note t1 = update_inode_table_slices [OF u1 off1, unfolded ioff, folded root_slice]
  define rootA where "rootA = inode_crc_finalize (root\<lparr>links := links root + 1, mtime := now\<rparr>)"
  have rootA: "inode_of_bytes (slice 0 INODE_SIZE itab1) = rootA"
    unfolding t1(3) rootA_def by (rule inode_of_bytes_bytes) (simp add: root_slice)
  have dA: "direct rootA = direct root" "size_bytes rootA = size_bytes root"
    by (simp_all add: rootA_def inode_crc_finalize_def Let_def)
  \<comment> \<open>root directory\<close>
  have rdo: "root_dir_offset sb rootA = rb * BS"
  proof -
    have "unat (superblock_t.data_region_start sb) < 2 ^ 32" using g(3) by simp
    moreover have "unat (superblock_t.data_region_start sb) \<le> unat (direct rootA ! 0)"
      using g(9) by (simp add: dA)
    moreover have "unat (direct rootA ! 0) - unat (superblock_t.data_region_start sb) < 2 ^ 20"
      using rblk g(8) by (simp add: dA bs)
    ultimately have "root_dir_offset sb rootA
        = (unat (direct rootA ! 0) - unat (superblock_t.data_region_start sb)) * BS"
      by (rule root_dir_offset_nat)
    then show ?thesis using rblk(2) by (simp add: dA)
  qed
  from update_root_directory_Inr [OF u2, unfolded rootA rdo] obtain idx where
    idx: "2 \<le> idx" "idx < BS div dirent_size" "inode_no (dir_entry dreg (rb * BS) idx) = 0"
      "\<forall>i. 2 \<le> i \<and> i < idx \<longrightarrow> inode_no (dir_entry dreg (rb * BS) i) \<noteq> 0"
    and dreg1: "dreg1 = write_bytes (rb * BS + idx * dirent_size)
           (dirent_bytes (new_dir_entry num fname)) dreg"
    and itab2: "itab2 = write_bytes 0
           (inode_bytes (inode_crc_finalize
              (rootA\<lparr>size_bytes := size_bytes rootA + of_nat dirent_size\<rparr>))) itab1"
    by blast
  define rootB where "rootB = inode_crc_finalize (rootA\<lparr>size_bytes := size_bytes root + of_nat dirent_size\<rparr>)"
  have itab2': "itab2 = write_bytes 0 (inode_bytes rootB) itab1"
    using itab2 by (simp add: rootB_def dA)
  have litab: "INODE_SIZE \<le> length itab1"
    using update_inode_table_Inr(2) [OF u1] t1(1) by simp
  have w0: "0 + length (inode_bytes rootB) \<le> length itab1"
    using litab by (simp add: INODE_SIZE_def)
  have litab2: "length itab2 = length itab"
    unfolding itab2' using length_write_bytes [OF w0] t1(1) by simp
  have s_root: "slice 0 INODE_SIZE itab2 = inode_bytes rootB"
    unfolding itab2' by (rule slice_write_bytes_same [OF w0]) (simp add: INODE_SIZE_def)
  have s_after: "slice a n itab2 = slice a n itab1" if "INODE_SIZE \<le> a" for a n
    unfolding itab2' using that by (intro slice_write_bytes_after [OF w0]) (simp add: INODE_SIZE_def)
  have s_new: "slice (ibit * INODE_SIZE) INODE_SIZE itab2
        = inode_bytes (new_file_inode fsize data_blocks now)"
    using s_after [of "ibit * INODE_SIZE" INODE_SIZE] ib1 t1(2) by simp
  have s_other: "slice a n itab2 = slice a n itab"
    if "INODE_SIZE \<le> a" "a + n \<le> ibit * INODE_SIZE \<or> ibit * INODE_SIZE + INODE_SIZE \<le> a" for a n
    using s_after [OF that(1)] t1(4) [OF that] by simp
  \<comment> \<open>directory entry\<close>
  have rb_in: "rb * BS + BS \<le> length dreg"
  proof -
    have "(rb + 1) * BS \<le> unat (superblock_t.data_region_blocks sb) * BS"
      using rblk(1) by (intro mult_le_mono1) simp
    then show ?thesis using l(4) by simp
  qed
  have de_in: "rb * BS + idx * dirent_size + length (dirent_bytes (new_dir_entry num fname)) \<le> length dreg"
  proof -
    have "idx * dirent_size + 64 \<le> BS" using idx(2) by (simp add: bs dirent_size_def)
    then show ?thesis using rb_in by simp
  qed
  have ldreg1: "length dreg1 = length dreg"
    unfolding dreg1 by (rule length_write_bytes [OF de_in])
  \<comment> \<open>file blocks\<close>
  have zipmem: "\<exists>j < bn. i = j \<and> p = data_blocks ! j \<and> bits ! j \<in> set bits
                  \<and> p = ucast (superblock_t.data_region_start sb) + of_nat (bits ! j)"
    if "(i, p) \<in> set (zip [0..<bn] data_blocks)" for i p
  proof -
    from that obtain j where j: "j < length (zip [0..<bn] data_blocks)"
      "zip [0..<bn] data_blocks ! j = (i, p)" by (auto simp: in_set_conv_nth)
    then have jb: "j < bn" by simp
    with j lbits blocks have "i = j" "p = data_blocks ! j" by auto
    moreover have "data_blocks ! j = ucast (superblock_t.data_region_start sb) + of_nat (bits ! j)"
      using jb lbits blocks by simp
    moreover have "bits ! j \<in> set bits" using jb lbits by simp
    ultimately show ?thesis using jb by auto
  qed
  have boff: "block_offset sb (ucast (superblock_t.data_region_start sb) + of_nat b) = b * BS"
    if "b \<in> set bits" for b
    by (rule block_offset_of_bit [OF bits_small [OF that]])
  have fb: "\<forall>(i, p) \<in> set (zip [0..<bn] data_blocks). length (file_block content bn i) = BS"
  proof (clarify)
    fix i p assume "(i, p) \<in> set (zip [0..<bn] data_blocks)"
    from zipmem [OF this] have "i < bn" by auto
    then show "length (file_block content bn i) = BS"
      using c(1) by (intro length_file_block) (simp_all add: bn_def)
  qed
  have offs: "map (\<lambda>(i, p). block_offset sb p) (zip [0..<bn] data_blocks) = map (\<lambda>b. b * BS) bits"
  proof (rule nth_equalityI)
    show "length (map (\<lambda>(i, p). block_offset sb p) (zip [0..<bn] data_blocks))
            = length (map (\<lambda>b. b * BS) bits)"
      using lbits blocks by simp
  next
    fix j assume "j < length (map (\<lambda>(i, p). block_offset sb p) (zip [0..<bn] data_blocks))"
    then have jb: "j < bn" by simp
    then have "bits ! j \<in> set bits" using lbits by simp
    from boff [OF this] show "map (\<lambda>(i, p). block_offset sb p) (zip [0..<bn] data_blocks) ! j
        = map (\<lambda>b. b * BS) bits ! j"
      using jb lbits blocks by simp
  qed
  have dist_off: "distinct (map (\<lambda>(i, p). block_offset sb p) (zip [0..<bn] data_blocks))"
    unfolding offs using dist by (simp add: distinct_map inj_on_def bs)
  note wl = write_file_blocks_length [OF w fb]
  have ldreg2: "length dreg2 = length dreg" using wl ldreg1 by simp
  have written: "slice (bits ! j * BS) BS dreg2 = file_block content bn j" if "j < bn" for j
  proof -
    have m: "(j, data_blocks ! j) \<in> set (zip [0..<bn] data_blocks)"
      using that lbits blocks by (auto simp: in_set_conv_nth intro!: exI [of _ j])
    have "bits ! j \<in> set bits" using that lbits by simp
    from boff [OF this] have "block_offset sb (data_blocks ! j) = bits ! j * BS"
      using that lbits blocks by simp
    with write_file_blocks_written [OF w fb dist_off m] show ?thesis by simp
  qed
  have frame2: "slice a n dreg2 = slice a n dreg1"
    if "\<forall>b \<in> set bits. a + n \<le> b * BS \<or> b * BS + BS \<le> a" for a n
  proof (rule write_file_blocks_frame [OF w fb], clarify)
    fix i p assume m: "(i, p) \<in> set (zip [0..<bn] data_blocks)"
      and n: "\<not> block_offset sb p + BS \<le> a"
    from zipmem [OF m] obtain j where j: "bits ! j \<in> set bits"
      "p = ucast (superblock_t.data_region_start sb) + of_nat (bits ! j)" by auto
    from boff [OF j(1)] j(2) have "block_offset sb p = bits ! j * BS" by simp
    with that j(1) n show "a + n \<le> block_offset sb p" by auto
  qed
  have de_disj: "\<forall>b \<in> set bits. rb * BS + idx * dirent_size + dirent_size \<le> b * BS
                   \<or> b * BS + BS \<le> rb * BS + idx * dirent_size"
  proof
    fix b assume "b \<in> set bits"
    with bits_ok have "b \<noteq> rb" by auto
    then consider "b < rb" | "rb < b" by linarith
    then show "rb * BS + idx * dirent_size + dirent_size \<le> b * BS
                   \<or> b * BS + BS \<le> rb * BS + idx * dirent_size"
    proof cases
      case 1
      then have "(b + 1) * BS \<le> rb * BS" by (intro mult_le_mono1) simp
      then show ?thesis by simp
    next
      case 2
      then have "(rb + 1) * BS \<le> b * BS" by (intro mult_le_mono1) simp
      moreover have "idx * dirent_size + dirent_size \<le> BS"
        using idx(2) by (simp add: bs dirent_size_def)
      ultimately show ?thesis by simp
    qed
  qed
  have s_de: "slice (rb * BS + idx * dirent_size) dirent_size dreg2
        = dirent_bytes (new_dir_entry num fname)"
  proof -
    have "slice (rb * BS + idx * dirent_size) dirent_size dreg2
            = slice (rb * BS + idx * dirent_size) dirent_size dreg1"
      using de_disj by (intro frame2) simp
    also have "\<dots> = dirent_bytes (new_dir_entry num fname)"
      unfolding dreg1 by (rule slice_write_bytes_same [OF de_in]) (simp add: dirent_size_def)
    finally show ?thesis .
  qed
  have s_frame: "slice a n dreg2 = slice a n dreg"
    if "a + n \<le> rb * BS + idx * dirent_size \<or> rb * BS + idx * dirent_size + dirent_size \<le> a"
      "\<forall>b \<in> set bits. a + n \<le> b * BS \<or> b * BS + BS \<le> a" for a n
  proof -
    have "slice a n dreg2 = slice a n dreg1" by (rule frame2 [OF that(2)])
    also have "\<dots> = slice a n dreg"
      unfolding dreg1 using that(1)
      by (intro slice_write_bytes_disjoint [OF de_in]) (simp add: dirent_size_def)
    finally show ?thesis .
  qed
  have ib_cnt: "ibit < unat (superblock_t.inode_count sb)" using ib(2) cnt32 by simp
  have o21: "\<forall>a n. INODE_SIZE \<le> a \<and> (a + n \<le> ibit * INODE_SIZE \<or> ibit * INODE_SIZE + INODE_SIZE \<le> a)
          \<longrightarrow> slice a n itab2 = slice a n itab"
    using s_other by blast
  have o22: "\<forall>j < length bits. slice (bits ! j * BS) BS dreg2 = file_block content (length bits) j"
    using written lbits by simp
  have o24: "\<forall>a n. (a + n \<le> rb * BS + idx * dirent_size
                \<or> rb * BS + idx * dirent_size + dirent_size \<le> a)
             \<and> (\<forall>b \<in> set bits. a + n \<le> b * BS \<or> b * BS + BS \<le> a)
          \<longrightarrow> slice a n dreg2 = slice a n dreg"
    using s_frame by blast
  have o2: "length ibm' = BS" using libm' l(1) by simp
  have o3: "length dbm' = BS" using ldbm' l(2) by simp
  have o11: "length bits = (length content + BS - 1) div BS" using lbits bn_def by simp
  have o17: "inode_no (image_dir_entry img idx) = 0"
    using idx(3) by (simp add: image_dir_entry_def image_dir_entry_bytes_def dir_entry_def dreg_def rb_def)
  have o18: "\<forall>i. 2 \<le> i \<and> i < idx \<longrightarrow> inode_no (image_dir_entry img i) \<noteq> 0"
    using idx(4) by (simp add: image_dir_entry_def image_dir_entry_bytes_def dir_entry_def dreg_def rb_def)
  note F = out o2 o3 litab2 ldreg2 num ib1 ib_cnt ib(3) ibm' o11 dist bits_ok dbm'
    idx(1) idx(2) o17 o18 s_root [unfolded rootB_def rootA_def] s_new [unfolded blocks fsize_def]
    o21 o22 s_de o24
  note G = F [unfolded sb_def ibm_def dbm_def itab_def dreg_def root_def rb_def]
  show ?thesis
    apply (rule exI [of _ ibit], rule exI [of _ bits], rule exI [of _ idx])
    apply (rule exI [of _ ibm'], rule exI [of _ dbm'], rule exI [of _ itab2], rule exI [of _ dreg2])
    apply (intro conjI)
                        apply (rule G(1))
                        apply (rule G(2))
                        apply (rule G(3))
                        apply (rule G(4))
                        apply (rule G(5))
                        apply (rule G(6))
                        apply (rule G(7))
                        apply (rule G(8))
                        apply (rule G(9))
                        apply (rule G(10))
                        apply (rule G(11))
                        apply (rule G(12))
                        apply (rule G(13))
                        apply (rule G(14))
                        apply (rule G(15))
                        apply (rule G(16))
                        apply (rule G(17))
                        apply (rule G(18))
                        apply (rule G(19))
                        apply (rule G(20))
                        apply (rule G(21))
                        apply (rule G(22))
                        apply (rule G(23))
                        apply (rule G(24))
    done
qed

section \<open>Properties of the layout calculator\<close>

lemma unat_ucast_32_64: "unat (ucast (w :: 32 word) :: 64 word) = unat w"
  by (simp add: unsigned_ucast_eq take_bit_nat_eq_self_iff order_less_trans [OF unsigned_less])

lemma validated_bounds:
  assumes "validate_builder_args args = None"
  shows "180 \<le> unat (size_kib args)" "unat (size_kib args) \<le> 4096"
        "128 \<le> unat (cli_args_builder_t.inode_count args)"
        "unat (cli_args_builder_t.inode_count args) \<le> 512"
        "unat (size_kib args) mod 4 = 0"
  using assms
  unfolding validate_builder_args_def MIN_SIZE_KIB_def MAX_SIZE_KIB_def MIN_INODES_def
    MAX_INODES_def
  by (auto simp: word_less_nat_alt word_le_nat_alt unat_mod_distrib Let_def
      unat_eq_0 [symmetric] simp del: unat_eq_0 unat_0_iff split: if_splits)

lemma unat_total_blocks:
  assumes s: "unat (s :: 32 word) \<le> 4194303"
  shows "unat ((ucast (s * 1024) :: 64 word) div of_nat BS) = unat s * 1024 div 4096"
proof -
  have "unat (s * 1024) = unat s * 1024"
    using s by (simp add: unat_word_ariths)
  then show ?thesis
    by (simp add: BS_def unat_div unat_ucast_32_64)
qed

lemma unat_inode_table_blocks:
  assumes s: "unat (n :: 32 word) \<le> 4294967264"
  shows "unat (ucast ((n + (of_nat BS div of_nat INODE_SIZE) - 1)
                 div (of_nat BS div of_nat INODE_SIZE :: 32 word)) :: 64 word)
         = (unat n + 31) div 32"
proof -
  have c: "(of_nat BS div of_nat INODE_SIZE :: 32 word) = 32"
    by (simp add: BS_def INODE_SIZE_def)
  have e: "n + 32 - 1 = n + 31" by simp
  have "unat (n + 31) = unat n + 31"
    using s by (simp add: unat_word_ariths)
  then have "unat ((n + 31) div 32) = (unat n + 31) div 32"
    by (simp add: unat_div)
  then show ?thesis
    by (simp only: c e unat_ucast_32_64)
qed

lemma calculate_layout_nat:
  assumes s: "unat (size_kib args) \<le> 4194303"
    and n: "unat (cli_args_builder_t.inode_count args) \<le> 4294967264"
    and fit: "3 + (unat (cli_args_builder_t.inode_count args) + 31) div 32
                < unat (size_kib args) * 1024 div 4096"
  shows "\<exists>layout. calculate_layout args = Inr layout
     \<and> unat (fs_layout_t.total_blocks layout) = unat (size_kib args) * 1024 div 4096
     \<and> unat (fs_layout_t.inode_table_blocks layout)
          = (unat (cli_args_builder_t.inode_count args) + 31) div 32
     \<and> superblock_start layout = 0 \<and> fs_layout_t.inode_bitmap_start layout = 1
     \<and> fs_layout_t.data_bitmap_start layout = 2 \<and> fs_layout_t.inode_table_start layout = 3
     \<and> unat (fs_layout_t.data_region_start layout)
          = 3 + unat (fs_layout_t.inode_table_blocks layout)
     \<and> unat (fs_layout_t.data_region_blocks layout)
          = unat (fs_layout_t.total_blocks layout) - unat (fs_layout_t.data_region_start layout)
     \<and> 1 \<le> unat (fs_layout_t.data_region_blocks layout)"
proof -
  define tb :: "64 word" where "tb = ucast (size_kib args * 1024) div of_nat BS"
  define itb :: "64 word" where
    "itb = ucast ((cli_args_builder_t.inode_count args + (of_nat BS div of_nat INODE_SIZE) - 1)
                    div (of_nat BS div of_nat INODE_SIZE :: 32 word))"
  have tb: "unat tb = unat (size_kib args) * 1024 div 4096"
    unfolding tb_def by (rule unat_total_blocks [OF s])
  have itb: "unat itb = (unat (cli_args_builder_t.inode_count args) + 31) div 32"
    unfolding itb_def by (rule unat_inode_table_blocks [OF n])
  have st: "unat (3 + itb) = 3 + unat itb"
    using itb n by (simp add: unat_word_ariths)
  have lt: "3 + itb < tb"
    using fit by (simp add: word_less_nat_alt st tb itb)
  then have drb: "unat (tb - (3 + itb)) = unat tb - unat (3 + itb)"
    by (simp add: unat_sub word_le_nat_alt word_less_nat_alt)
  have pos: "1 \<le> unat (tb - (3 + itb))"
    using lt unfolding drb by (simp add: word_less_nat_alt)
  then have nz: "tb - (3 + itb) \<noteq> 0"
    by (metis not_one_le_zero unat_0)
  have nl: "\<not> tb - (3 + itb) < 1"
    using pos by (simp add: word_less_nat_alt)
  show ?thesis
    unfolding calculate_layout_def tb_def [symmetric] itb_def [symmetric] Let_def
    using nz nl tb itb st drb pos
    by simp
qed

lemma calculate_layout_validated:
  assumes "validate_builder_args args = None"
  shows "\<exists>layout. calculate_layout args = Inr layout
     \<and> unat (fs_layout_t.total_blocks layout) = unat (size_kib args) * 1024 div 4096
     \<and> unat (fs_layout_t.inode_table_blocks layout)
          = (unat (cli_args_builder_t.inode_count args) + 31) div 32
     \<and> superblock_start layout = 0 \<and> fs_layout_t.inode_bitmap_start layout = 1
     \<and> fs_layout_t.data_bitmap_start layout = 2 \<and> fs_layout_t.inode_table_start layout = 3
     \<and> unat (fs_layout_t.data_region_start layout)
          = 3 + unat (fs_layout_t.inode_table_blocks layout)
     \<and> unat (fs_layout_t.data_region_blocks layout)
          = unat (fs_layout_t.total_blocks layout) - unat (fs_layout_t.data_region_start layout)
     \<and> 1 \<le> unat (fs_layout_t.data_region_blocks layout)"
proof -
  note b = validated_bounds [OF assms]
  have s: "unat (size_kib args) \<le> 4194303" using b(2) by simp
  have n: "unat (cli_args_builder_t.inode_count args) \<le> 4294967264" using b(4) by simp
  have fit: "3 + (unat (cli_args_builder_t.inode_count args) + 31) div 32
               < unat (size_kib args) * 1024 div 4096"
    using b(1) b(4) by simp
  show ?thesis by (rule calculate_layout_nat [OF s n fit])
qed

lemma example_builder_args_valid: "validate_builder_args example_builder_args = None"
  by (simp add: validate_builder_args_def example_builder_args_def MIN_SIZE_KIB_def
      MAX_SIZE_KIB_def MIN_INODES_def MAX_INODES_def BS_def INODE_SIZE_def)

text \<open>
  C5.  For every pair (size, inode count) that passes the builder's validation,
  \<open>calculate_layout\<close> succeeds with \<open>total_blocks = size_kib * 1024 / 4096\<close>,
  \<open>inode_table_blocks = ceil (inode_count / 32)\<close>, the superblock at block 0, the inode
  bitmap at 1, the data bitmap at 2, the inode table at 3, the data region starting at
  \<open>3 + inode_table_blocks\<close> and holding \<open>total_blocks - data_region_start \<ge> 1\<close> blocks:
  each region starts where the previous one ends and the data region ends at
  \<open>total_blocks\<close>.
\<close>

theorem layout_tiles_volume:
  assumes "validate_builder_args args = None"
  shows "\<exists>layout. calculate_layout args = Inr layout
     \<and> unat (fs_layout_t.total_blocks layout) = unat (size_kib args) * 1024 div 4096
     \<and> unat (fs_layout_t.inode_table_blocks layout)
          = (unat (cli_args_builder_t.inode_count args) + 31) div 32
     \<and> superblock_start layout = 0 \<and> fs_layout_t.inode_bitmap_start layout = 1
     \<and> fs_layout_t.data_bitmap_start layout = 2 \<and> fs_layout_t.inode_table_start layout = 3
     \<and> unat (fs_layout_t.data_region_start layout)
          = 3 + unat (fs_layout_t.inode_table_blocks layout)
     \<and> unat (fs_layout_t.data_region_blocks layout)
          = unat (fs_layout_t.total_blocks layout) - unat (fs_layout_t.data_region_start layout)
     \<and> 1 \<le> unat (fs_layout_t.data_region_blocks layout)
     \<and> unat (fs_layout_t.data_region_start layout) + unat (fs_layout_t.data_region_blocks layout)
          = unat (fs_layout_t.total_blocks layout)"
proof -
  from calculate_layout_validated [OF assms] obtain layout where
    l: "calculate_layout args = Inr layout"
     "unat (fs_layout_t.total_blocks layout) = unat (size_kib args) * 1024 div 4096"
     "unat (fs_layout_t.inode_table_blocks layout)
          = (unat (cli_args_builder_t.inode_count args) + 31) div 32"
     "superblock_start layout = 0" "fs_layout_t.inode_bitmap_start layout = 1"
     "fs_layout_t.data_bitmap_start layout = 2" "fs_layout_t.inode_table_start layout = 3"
     "unat (fs_layout_t.data_region_start layout)
          = 3 + unat (fs_layout_t.inode_table_blocks layout)"
     "unat (fs_layout_t.data_region_blocks layout)
          = unat (fs_layout_t.total_blocks layout) - unat (fs_layout_t.data_region_start layout)"
     "1 \<le> unat (fs_layout_t.data_region_blocks layout)"
    by blast
  have "unat (fs_layout_t.data_region_start layout) + unat (fs_layout_t.data_region_blocks layout)
          = unat (fs_layout_t.total_blocks layout)"
    using l(9) l(10) by simp
  with l show ?thesis by blast
qed

theorem layout_tiles_volume_witness:
  "validate_builder_args example_builder_args = None \<and>
   (\<exists>layout. calculate_layout example_builder_args = Inr layout
     \<and> unat (fs_layout_t.total_blocks layout) = 45
     \<and> unat (fs_layout_t.inode_table_blocks layout) = 4
     \<and> unat (fs_layout_t.data_region_start layout) = 7
     \<and> unat (fs_layout_t.data_region_blocks layout) = 38)"
  using layout_tiles_volume [OF example_builder_args_valid] example_builder_args_valid
  by (auto simp: example_builder_args_def)

text \<open>
  C10.  For every argument set that passes the builder's validation, \<open>calculate_layout\<close>
  succeeds, so its error branches are not reached.  For arbitrary arguments the only error
  it can return is "Not enough space", and it returns it exactly when the data region would
  have zero blocks (\<open>total_blocks = data_region_start\<close>); when the volume is too small
  for the metadata (\<open>total_blocks < data_region_start\<close>) the unsigned subtraction wraps
  and the layout is accepted with a block count of \<open>2^64\<close> minus the shortfall.
\<close>

theorem calculate_layout_total:
  "(validate_builder_args args = None \<longrightarrow> (\<exists>layout. calculate_layout args = Inr layout))
   \<and> (let total_blocks = (ucast (size_kib args * 1024) :: 64 word) div 4096;
           data_region_start =
             3 + (ucast ((cli_args_builder_t.inode_count args + 32 - 1) div 32) :: 64 word)
       in (\<forall>e. calculate_layout args = Inl e \<longleftrightarrow>
                e = Not_Enough_Space \<and> total_blocks = data_region_start)
        \<and> (total_blocks < data_region_start \<longrightarrow>
             (\<exists>layout. calculate_layout args = Inr layout
                \<and> unat (fs_layout_t.data_region_blocks layout)
                     = 2 ^ 64 - (unat data_region_start - unat total_blocks))))"
proof (intro conjI impI)
  assume "validate_builder_args args = None"
  from calculate_layout_validated [OF this]
  show "\<exists>layout. calculate_layout args = Inr layout"
    by blast
next
  have z: "\<And>x :: 64 word. x < 1 \<longleftrightarrow> x = 0"
    by (simp add: word_less_nat_alt unat_eq_0)
  show "let total_blocks = (ucast (size_kib args * 1024) :: 64 word) div 4096;
           data_region_start =
             3 + (ucast ((cli_args_builder_t.inode_count args + 32 - 1) div 32) :: 64 word)
       in (\<forall>e. calculate_layout args = Inl e \<longleftrightarrow>
                e = Not_Enough_Space \<and> total_blocks = data_region_start)
        \<and> (total_blocks < data_region_start \<longrightarrow>
             (\<exists>layout. calculate_layout args = Inr layout
                \<and> unat (fs_layout_t.data_region_blocks layout)
                     = 2 ^ 64 - (unat data_region_start - unat total_blocks)))"
    unfolding Let_def calculate_layout_def
    apply (simp add: BS_def INODE_SIZE_def z)
    apply (auto simp: unat_sub_if' word_less_nat_alt)
    done
qed

theorem calculate_layout_total_witness:
  "validate_builder_args example_builder_args = None
   \<and> (\<exists>layout. calculate_layout example_builder_args = Inr layout)
   \<and> (\<forall>e. calculate_layout example_builder_args \<noteq> Inl e)
   \<and> (\<exists>layout. calculate_layout shortfall_builder_args = Inr layout
         \<and> unat (fs_layout_t.data_region_blocks layout) = 2 ^ 64 - 5)"
proof -
  have a: "\<exists>layout. calculate_layout example_builder_args = Inr layout"
    using calculate_layout_total [of example_builder_args] example_builder_args_valid
    by blast
  then have b: "\<forall>e. calculate_layout example_builder_args \<noteq> Inl e"
    by auto
  have c: "\<exists>layout. calculate_layout shortfall_builder_args = Inr layout
         \<and> unat (fs_layout_t.data_region_blocks layout) = 2 ^ 64 - 5"
    using calculate_layout_total [of shortfall_builder_args]
    by (simp add: shortfall_builder_args_def Let_def)
  from a b c example_builder_args_valid show ?thesis by blast
qed
section \<open>The image written by a successful injection\<close>

lemma superblock_crc_finalize_fst:
  "fst (superblock_crc_finalize sb adjacent)
     = sb\<lparr>superblock_t.checksum := snd (superblock_crc_finalize sb adjacent)\<rparr>"
  by (simp add: superblock_crc_finalize_def Let_def)

lemma blocks_apart:
  assumes "(i :: nat) \<noteq> j"
  shows "i * BS + BS \<le> j * BS \<or> j * BS + BS \<le> i * BS"
proof -
  from assms consider "i < j" | "j < i" by linarith
  then show ?thesis
  proof cases
    case 1
    then have "(i + 1) * BS \<le> j * BS" by (intro mult_le_mono1) simp
    then show ?thesis by simp
  next
    case 2
    then have "(j + 1) * BS \<le> i * BS" by (intro mult_le_mono1) simp
    then show ?thesis by simp
  qed
qed

lemma slots_apart:
  assumes "(i :: nat) \<noteq> j"
  shows "i * m + m \<le> j * m \<or> j * m + m \<le> i * m"
proof -
  from assms consider "i < j" | "j < i" by linarith
  then show ?thesis
  proof cases
    case 1
    then have "(i + 1) * m \<le> j * m" by (intro mult_le_mono1) simp
    then show ?thesis by simp
  next
    case 2
    then have "(j + 1) * m \<le> i * m" by (intro mult_le_mono1) simp
    then show ?thesis by simp
  qed
qed

lemma slot_in_block:
  assumes "k < BS div dirent_size"
  shows "k * dirent_size + dirent_size \<le> BS"
proof -
  have "(k + 1) * dirent_size \<le> (BS div dirent_size) * dirent_size"
    using assms by (intro mult_le_mono1) simp
  then show ?thesis by (simp add: BS_def dirent_size_def)
qed

lemma add_file_result:
  assumes v: "valid_image img"
    and a: "add_file img content fname now adjacent = Inr (out, num)"
    and c: "content \<noteq> []" "length content \<le> DIRECT_MAX * BS"
  shows "\<exists>ibit bits idx.
      num = of_nat ibit + 1 \<and> unat num = ibit + 1 \<and> 1 \<le> ibit
    \<and> ibit < unat (superblock_t.inode_count (image_superblock img))
    \<and> \<not> bitmap_bit (image_inode_bitmap img) ibit
    \<and> length bits = (length content + BS - 1) div BS \<and> distinct bits
    \<and> (\<forall>b \<in> set bits. b < unat (superblock_t.data_region_blocks (image_superblock img))
           \<and> \<not> bitmap_bit (image_data_bitmap img) b \<and> b \<noteq> image_root_dir_block img)
    \<and> 2 \<le> idx \<and> idx < BS div dirent_size
    \<and> inode_no (image_dir_entry img idx) = 0
    \<and> (\<forall>i. 2 \<le> i \<and> i < idx \<longrightarrow> inode_no (image_dir_entry img i) \<noteq> 0)
    \<and> length out = length img
    \<and> image_superblock out
        = fst (superblock_crc_finalize ((image_superblock img)\<lparr>mtime_epoch := now\<rparr>) adjacent)
    \<and> (\<forall>i. bitmap_bit (image_inode_bitmap out) i
           \<longleftrightarrow> bitmap_bit (image_inode_bitmap img) i \<or> i = ibit)
    \<and> (\<forall>i. bitmap_bit (image_data_bitmap out) i
           \<longleftrightarrow> bitmap_bit (image_data_bitmap img) i \<or> i \<in> set bits)
    \<and> image_inode_bytes out 1
        = inode_bytes (inode_crc_finalize
            ((inode_crc_finalize ((image_inode img 1)
                \<lparr>links := links (image_inode img 1) + 1, mtime := now\<rparr>))
              \<lparr>size_bytes := size_bytes (image_inode img 1) + of_nat dirent_size\<rparr>))
    \<and> image_inode_bytes out (ibit + 1)
        = inode_bytes (new_file_inode (of_nat (length content))
            (map (\<lambda>b. ucast (superblock_t.data_region_start (image_superblock img)) + of_nat b) bits)
            now)
    \<and> (\<forall>n. 2 \<le> n \<and> n \<noteq> ibit + 1 \<longrightarrow> image_inode_bytes out n = image_inode_bytes img n)
    \<and> image_root_dir_block out = image_root_dir_block img
    \<and> image_dir_entry_bytes out idx = dirent_bytes (new_dir_entry num fname)
    \<and> (\<forall>k < BS div dirent_size. k \<noteq> idx
           \<longrightarrow> image_dir_entry_bytes out k = image_dir_entry_bytes img k)
    \<and> (\<forall>j < length bits. image_data_block out (bits ! j) = file_block content (length bits) j)
    \<and> (\<forall>i. i \<noteq> image_root_dir_block img \<and> i \<notin> set bits
           \<longrightarrow> image_data_block out i = image_data_block img i)"
proof -
  define sb where "sb = image_superblock img"
  define itab where "itab = image_inode_table img"
  define dreg where "dreg = image_data_region img"
  define root where "root = image_inode img 1"
  define rb where "rb = image_root_dir_block img"
  define sb' where "sb' = fst (superblock_crc_finalize (sb\<lparr>mtime_epoch := now\<rparr>) adjacent)"
  define rootB where "rootB = inode_crc_finalize
            ((inode_crc_finalize (root\<lparr>links := links root + 1, mtime := now\<rparr>))
              \<lparr>size_bytes := size_bytes root + of_nat dirent_size\<rparr>)"
  note g = valid_image_geometry [OF v, folded sb_def root_def]
  note l = valid_image_lengths [OF v, folded sb_def itab_def dreg_def]
  note rblk = valid_image_root_block [OF v, folded sb_def rb_def root_def]
  have bs: "BS = 4096" by (simp add: BS_def)
  from add_file_effect [OF v a c, folded sb_def itab_def dreg_def root_def rb_def,
      folded sb'_def rootB_def]
  obtain ibit bits idx ibm' dbm' itab' dreg' where
    out: "out = superblock_block sb' @ ibm' @ dbm' @ itab' @ dreg'"
    and len: "length ibm' = BS" "length dbm' = BS" "length itab' = length itab"
      "length dreg' = length dreg"
    and num: "num = of_nat ibit + 1"
    and ib: "1 \<le> ibit" "ibit < unat (superblock_t.inode_count sb)"
      "\<not> bitmap_bit (image_inode_bitmap img) ibit"
    and ibm': "\<forall>i. bitmap_bit ibm' i \<longleftrightarrow> bitmap_bit (image_inode_bitmap img) i \<or> i = ibit"
    and bits: "length bits = (length content + BS - 1) div BS" "distinct bits"
      "\<forall>b \<in> set bits. b < unat (superblock_t.data_region_blocks sb)
           \<and> \<not> bitmap_bit (image_data_bitmap img) b \<and> b \<noteq> rb"
    and dbm': "\<forall>i. bitmap_bit dbm' i \<longleftrightarrow> bitmap_bit (image_data_bitmap img) i \<or> i \<in> set bits"
    and idx: "2 \<le> idx" "idx < BS div dirent_size" "inode_no (image_dir_entry img idx) = 0"
      "\<forall>i. 2 \<le> i \<and> i < idx \<longrightarrow> inode_no (image_dir_entry img i) \<noteq> 0"
    and s_root: "slice 0 INODE_SIZE itab' = inode_bytes rootB"
    and s_new: "slice (ibit * INODE_SIZE) INODE_SIZE itab'
        = inode_bytes (new_file_inode (of_nat (length content))
            (map (\<lambda>b. ucast (superblock_t.data_region_start sb) + of_nat b) bits) now)"
    and s_other: "\<forall>a n. INODE_SIZE \<le> a \<and> (a + n \<le> ibit * INODE_SIZE \<or> ibit * INODE_SIZE + INODE_SIZE \<le> a)
          \<longrightarrow> slice a n itab' = slice a n itab"
    and written: "\<forall>j < length bits. slice (bits ! j * BS) BS dreg' = file_block content (length bits) j"
    and s_de: "slice (rb * BS + idx * dirent_size) dirent_size dreg'
        = dirent_bytes (new_dir_entry num fname)"
    and s_frame: "\<forall>a n. (a + n \<le> rb * BS + idx * dirent_size
                \<or> rb * BS + idx * dirent_size + dirent_size \<le> a)
             \<and> (\<forall>b \<in> set bits. a + n \<le> b * BS \<or> b * BS + BS \<le> a)
          \<longrightarrow> slice a n dreg' = slice a n dreg"
    by (elim exE conjE) (rule that; assumption)
  have f': "superblock_t.inode_table_blocks sb' = superblock_t.inode_table_blocks sb"
    "superblock_t.data_region_blocks sb' = superblock_t.data_region_blocks sb"
    "superblock_t.data_region_start sb' = superblock_t.data_region_start sb"
    by (simp_all add: sb'_def superblock_crc_finalize_fst)
  have p1: "length (superblock_block sb') = BS" by simp
  have p4: "superblock_of_bytes (take 116 (superblock_block sb')) = sb'"
    by (simp add: superblock_of_bytes_bytes)
  have p5: "length itab' = unat (superblock_t.inode_table_blocks sb') * BS"
    using len(3) l(3) by (simp add: f')
  have p6: "length dreg' = unat (superblock_t.data_region_blocks sb') * BS"
    using len(4) l(4) by (simp add: f')
  note reg = image_regions_append [OF p1 len(1) len(2) p4 p5 p6, folded out]
  have o_len: "length out = length img" using reg(6) g(4) by (simp add: f')
  have ibs: "ibit < 2 ^ 25" using ib(2) g(5) by (simp add: bs)
  have unum: "unat num = ibit + 1"
  proof -
    have "num = of_nat (ibit + 1)" using num by simp
    moreover have "ibit + 1 < 2 ^ 32" using ibs by simp
    ultimately show ?thesis by (simp only: unat_of_nat_32)
  qed
  have o_root: "image_inode_bytes out 1 = inode_bytes rootB"
    using s_root by (simp add: image_inode_bytes_def reg)
  have o_new: "image_inode_bytes out (ibit + 1)
        = inode_bytes (new_file_inode (of_nat (length content))
            (map (\<lambda>b. ucast (superblock_t.data_region_start sb) + of_nat b) bits) now)"
    using s_new by (simp add: image_inode_bytes_def reg)
  have o_other: "image_inode_bytes out n = image_inode_bytes img n" if "2 \<le> n" "n \<noteq> ibit + 1" for n
  proof -
    have "n - 1 \<noteq> ibit" using that by simp
    from slots_apart [OF this, of INODE_SIZE]
    have "(n - 1) * INODE_SIZE + INODE_SIZE \<le> ibit * INODE_SIZE
            \<or> ibit * INODE_SIZE + INODE_SIZE \<le> (n - 1) * INODE_SIZE" .
    moreover have "INODE_SIZE \<le> (n - 1) * INODE_SIZE"
    proof -
      have "1 \<le> n - 1" using that(1) by arith
      then have "1 * INODE_SIZE \<le> (n - 1) * INODE_SIZE" by (rule mult_le_mono1)
      then show ?thesis by simp
    qed
    ultimately have "slice ((n - 1) * INODE_SIZE) INODE_SIZE itab'
        = slice ((n - 1) * INODE_SIZE) INODE_SIZE itab"
      using s_other by blast
    then show ?thesis by (simp add: image_inode_bytes_def reg itab_def)
  qed
  have dirB: "direct rootB = direct root" by (simp add: rootB_def)
  have o_rb: "image_root_dir_block out = rb"
  proof -
    have "image_inode out 1 = rootB"
      unfolding image_inode_def o_root
      by (rule inode_of_bytes_bytes) (simp add: dirB root_def image_inode_def)
    then show ?thesis
      by (simp add: image_root_dir_block_def reg f' dirB rb_def root_def sb_def)
  qed
  have o_de: "image_dir_entry_bytes out idx = dirent_bytes (new_dir_entry num fname)"
    using s_de by (simp add: image_dir_entry_bytes_def o_rb reg)
  have bits_rb: "b \<noteq> rb" if "b \<in> set bits" for b using bits(3) that by blast
  have o_dir: "image_dir_entry_bytes out k = image_dir_entry_bytes img k"
    if "k < BS div dirent_size" "k \<noteq> idx" for k
  proof -
    have k_in: "k * dirent_size + dirent_size \<le> BS" by (rule slot_in_block [OF that(1)])
    have d1: "rb * BS + k * dirent_size + dirent_size \<le> rb * BS + idx * dirent_size
        \<or> rb * BS + idx * dirent_size + dirent_size \<le> rb * BS + k * dirent_size"
      using slots_apart [OF that(2), of dirent_size] by auto
    have d2: "\<forall>b \<in> set bits. rb * BS + k * dirent_size + dirent_size \<le> b * BS
        \<or> b * BS + BS \<le> rb * BS + k * dirent_size"
    proof
      fix b assume "b \<in> set bits"
      then have "rb \<noteq> b" using bits_rb by blast
      from blocks_apart [OF this] k_in
      show "rb * BS + k * dirent_size + dirent_size \<le> b * BS
        \<or> b * BS + BS \<le> rb * BS + k * dirent_size" by auto
    qed
    from s_frame d1 d2 have "slice (rb * BS + k * dirent_size) dirent_size dreg'
        = slice (rb * BS + k * dirent_size) dirent_size dreg" by blast
    then show ?thesis
      by (simp add: image_dir_entry_bytes_def o_rb reg dreg_def rb_def)
  qed
  have o_written: "image_data_block out (bits ! j) = file_block content (length bits) j"
    if "j < length bits" for j
    using written that by (simp add: image_data_block_def reg)
  have o_blocks: "image_data_block out i = image_data_block img i"
    if "i \<noteq> rb" "i \<notin> set bits" for i
  proof -
    have idx_in: "idx * dirent_size + dirent_size \<le> BS" by (rule slot_in_block [OF idx(2)])
    have d1: "i * BS + BS \<le> rb * BS + idx * dirent_size
        \<or> rb * BS + idx * dirent_size + dirent_size \<le> i * BS"
      using blocks_apart [OF that(1)] idx_in by auto
    have d2: "\<forall>b \<in> set bits. i * BS + BS \<le> b * BS \<or> b * BS + BS \<le> i * BS"
    proof
      fix b assume "b \<in> set bits"
      with that(2) have "i \<noteq> b" by blast
      from blocks_apart [OF this] show "i * BS + BS \<le> b * BS \<or> b * BS + BS \<le> i * BS" .
    qed
    from s_frame d1 d2 have "slice (i * BS) BS dreg' = slice (i * BS) BS dreg" by blast
    then show ?thesis by (simp add: image_data_block_def reg dreg_def)
  qed
  have o21: "\<forall>n. 2 \<le> n \<and> n \<noteq> ibit + 1 \<longrightarrow> image_inode_bytes out n = image_inode_bytes img n"
    using o_other by blast
  have o24: "\<forall>k < BS div dirent_size. k \<noteq> idx
           \<longrightarrow> image_dir_entry_bytes out k = image_dir_entry_bytes img k"
    using o_dir by blast
  have o25: "\<forall>j < length bits. image_data_block out (bits ! j) = file_block content (length bits) j"
    using o_written by blast
  have o26: "\<forall>i. i \<noteq> rb \<and> i \<notin> set bits \<longrightarrow> image_data_block out i = image_data_block img i"
    using o_blocks by blast
  note F = num unum ib bits idx o_len reg(1) ibm' [folded reg(2)] dbm' [folded reg(3)]
    o_root o_new o21 o_rb o_de o24 o25 o26
  note G = F [unfolded sb'_def rootB_def, unfolded sb_def root_def rb_def]
  show ?thesis
    apply (rule exI [of _ ibit], rule exI [of _ bits], rule exI [of _ idx])
    apply (intro conjI)
                        apply (rule G(1))
                        apply (rule G(2))
                        apply (rule G(3))
                        apply (rule G(4))
                        apply (rule G(5))
                        apply (rule G(6))
                        apply (rule G(7))
                        apply (rule G(8))
                        apply (rule G(9))
                        apply (rule G(10))
                        apply (rule G(11))
                        apply (rule G(12))
                        apply (rule G(13))
                        apply (rule G(14))
                        apply (rule G(15))
                        apply (rule G(16))
                        apply (rule G(17))
                        apply (rule G(18))
                        apply (rule G(19))
                        apply (rule G(20))
                        apply (rule G(21))
                        apply (rule G(22))
                        apply (rule G(23))
                        apply (rule G(24))
    done
qed

section \<open>Claims about a successful injection\<close>

lemma mkfs_adder_run:
  assumes run: "mkfs_adder argv now adjacent fs = (Inr num, fs')"
    and args: "parse_cli_args_adder argv = Inr args"
    and img: "fs (the (input_image args)) = Some img"
  shows "\<exists>content out. fs (the (filename args)) = Some content
    \<and> content \<noteq> [] \<and> length content \<le> DIRECT_MAX * BS
    \<and> add_file img content (extract_filename (the (filename args))) now adjacent = Inr (out, num)
    \<and> fs' = fs(the (output_image args) \<mapsto> out)"
proof -
  from mkfs_adder_Inr [OF run] obtain args' content img' out where
    r: "parse_cli_args_adder argv = Inr args'" "fs (the (filename args')) = Some content"
      "content \<noteq> []" "length content < 2 ^ 63"
      "blocks_needed (of_nat (length content)) \<le> of_nat DIRECT_MAX"
      "fs (the (input_image args')) = Some img'"
      "add_file img' content (extract_filename (the (filename args'))) now adjacent = Inr (out, num)"
      "fs' = fs(the (output_image args') \<mapsto> out)"
    by (elim exE conjE) (rule that; assumption)
  from r(1) args have e: "args' = args" by simp
  from r(6) img e have i: "img' = img" by simp
  have "length content \<le> DIRECT_MAX * BS"
    using r(5) blocks_needed_le_iff [OF r(4)] by simp
  with r(2,3,7,8) show ?thesis unfolding e i by blast
qed

text \<open>
  C8.  For every successful injection into a valid image: the superblock of the written
  image differs from the one read in the modification time and the checksum only; the
  entries "." and ".." (slots 0 and 1 of the root directory's block) and every other
  directory entry except the new one keep their bytes; every inode slot except the root's and the new
  inode's keeps its bytes; and every data block except the root directory's block and the
  blocks allocated by this run (clear in the data bitmap before, set afterwards) keeps its
  bytes.
\<close>

theorem injection_frame:
  assumes run: "mkfs_adder argv now adjacent fs = (Inr num, fs')"
    and args: "parse_cli_args_adder argv = Inr args"
    and img: "fs (the (input_image args)) = Some img"
    and v: "valid_image img"
  shows "\<exists>out idx. fs' (the (output_image args)) = Some out
    \<and> (image_superblock out)\<lparr>mtime_epoch := 0, superblock_t.checksum := 0\<rparr>
        = (image_superblock img)\<lparr>mtime_epoch := 0, superblock_t.checksum := 0\<rparr>
    \<and> image_root_dir_block out = image_root_dir_block img
    \<and> image_dir_entry_bytes out 0 = image_dir_entry_bytes img 0
    \<and> image_dir_entry_bytes out 1 = image_dir_entry_bytes img 1
    \<and> 2 \<le> idx \<and> idx < BS div dirent_size \<and> inode_no (image_dir_entry img idx) = 0
    \<and> unat (inode_no (image_dir_entry out idx)) = unat num
    \<and> (\<forall>k < BS div dirent_size. k \<noteq> idx
           \<longrightarrow> image_dir_entry_bytes out k = image_dir_entry_bytes img k)
    \<and> (\<forall>n. 2 \<le> n \<and> n \<noteq> unat num \<longrightarrow> image_inode_bytes out n = image_inode_bytes img n)
    \<and> (\<forall>i. i \<noteq> image_root_dir_block img
            \<and> (bitmap_bit (image_data_bitmap out) i \<longrightarrow> bitmap_bit (image_data_bitmap img) i)
           \<longrightarrow> image_data_block out i = image_data_block img i)"
proof -
  from mkfs_adder_run [OF run args img] obtain content out where
    c: "content \<noteq> []" "length content \<le> DIRECT_MAX * BS"
    and a: "add_file img content (extract_filename (the (filename args))) now adjacent = Inr (out, num)"
    and fs': "fs' = fs(the (output_image args) \<mapsto> out)"
    by blast
  from add_file_result [OF v a c] obtain ibit bits idx where
    unum: "unat num = ibit + 1"
    and idx: "2 \<le> idx" "idx < BS div dirent_size" "inode_no (image_dir_entry img idx) = 0"
    and sb: "image_superblock out
        = fst (superblock_crc_finalize ((image_superblock img)\<lparr>mtime_epoch := now\<rparr>) adjacent)"
    and bb: "\<forall>b \<in> set bits. b < unat (superblock_t.data_region_blocks (image_superblock img))
           \<and> \<not> bitmap_bit (image_data_bitmap img) b \<and> b \<noteq> image_root_dir_block img"
    and dbm: "\<forall>i. bitmap_bit (image_data_bitmap out) i
           \<longleftrightarrow> bitmap_bit (image_data_bitmap img) i \<or> i \<in> set bits"
    and other: "\<forall>n. 2 \<le> n \<and> n \<noteq> ibit + 1 \<longrightarrow> image_inode_bytes out n = image_inode_bytes img n"
    and rb: "image_root_dir_block out = image_root_dir_block img"
    and de: "image_dir_entry_bytes out idx
        = dirent_bytes (new_dir_entry num (extract_filename (the (filename args))))"
    and dir: "\<forall>k < BS div dirent_size. k \<noteq> idx
           \<longrightarrow> image_dir_entry_bytes out k = image_dir_entry_bytes img k"
    and blocks: "\<forall>i. i \<noteq> image_root_dir_block img \<and> i \<notin> set bits
           \<longrightarrow> image_data_block out i = image_data_block img i"
    by (elim exE conjE) (rule that; assumption)
  have o1: "fs' (the (output_image args)) = Some out" by (simp add: fs')
  have o2: "(image_superblock out)\<lparr>mtime_epoch := 0, superblock_t.checksum := 0\<rparr>
        = (image_superblock img)\<lparr>mtime_epoch := 0, superblock_t.checksum := 0\<rparr>"
    by (simp add: sb superblock_crc_finalize_fst)
  have bsd: "2 < BS div dirent_size" by (simp add: BS_def dirent_size_def)
  have o4: "image_dir_entry_bytes out 0 = image_dir_entry_bytes img 0"
    using dir idx(1) bsd by (metis less_trans not_numeral_le_zero zero_less_numeral)
  have o5: "image_dir_entry_bytes out 1 = image_dir_entry_bytes img 1"
  proof -
    have "(1 :: nat) < BS div dirent_size" "1 \<noteq> idx" using bsd idx(1) by simp_all
    with dir show ?thesis by blast
  qed
  have o9: "unat (inode_no (image_dir_entry out idx)) = unat num"
  proof -
    have "image_dir_entry out idx = new_dir_entry num (extract_filename (the (filename args)))"
      unfolding image_dir_entry_def de
      by (rule dirent_of_bytes_bytes)
         (simp add: new_dir_entry_def dirent_checksum_finalize_def Let_def)
    then show ?thesis
      by (simp add: new_dir_entry_def dirent_checksum_finalize_def Let_def)
  qed
  have o11: "\<forall>n. 2 \<le> n \<and> n \<noteq> unat num \<longrightarrow> image_inode_bytes out n = image_inode_bytes img n"
    using other unum by simp
  have o12: "\<forall>i. i \<noteq> image_root_dir_block img
            \<and> (bitmap_bit (image_data_bitmap out) i \<longrightarrow> bitmap_bit (image_data_bitmap img) i)
           \<longrightarrow> image_data_block out i = image_data_block img i"
  proof (intro allI impI)
    fix i assume h: "i \<noteq> image_root_dir_block img
            \<and> (bitmap_bit (image_data_bitmap out) i \<longrightarrow> bitmap_bit (image_data_bitmap img) i)"
    have "i \<notin> set bits"
    proof
      assume m: "i \<in> set bits"
      with dbm have "bitmap_bit (image_data_bitmap out) i" by blast
      with h have "bitmap_bit (image_data_bitmap img) i" by blast
      moreover have "\<not> bitmap_bit (image_data_bitmap img) i" using bb m by blast
      ultimately show False by blast
    qed
    with h blocks show "image_data_block out i = image_data_block img i" by blast
  qed
  show ?thesis
    apply (rule exI [of _ out], rule exI [of _ idx])
    apply (intro conjI)
              apply (rule o1)
             apply (rule o2)
            apply (rule rb)
           apply (rule o4)
          apply (rule o5)
         apply (rule idx(1))
        apply (rule idx(2))
       apply (rule idx(3))
      apply (rule o9)
     apply (rule dir)
    apply (rule o11)
    apply (rule o12)
    done
qed


lemma parse_cli_args_adder_Inr:
  assumes "parse_cli_args_adder argv = Inr args"
  shows "input_image args \<noteq> None" "output_image args \<noteq> None" "filename args \<noteq> None"
    "length (extract_filename (the (filename args))) \<le> 57"
  using assms
  by (auto simp: parse_cli_args_adder_def split: sum.splits if_splits)

lemma fixed_name:
  assumes "length nm \<le> 57"
  shows "fixed 57 (c_bytes nm) @ [0] = c_bytes nm @ replicate (58 - length nm) 0"
proof -
  have "fixed 57 (c_bytes nm) = c_bytes nm @ replicate (57 - length nm) 0"
    using assms by (simp add: fixed_def c_bytes_def)
  moreover have "replicate (57 - length nm) (0 :: byte) @ [0] = replicate (58 - length nm) 0"
  proof -
    have "58 - length nm = Suc (57 - length nm)" using assms by simp
    then show ?thesis by (simp only: replicate_Suc replicate_append_same)
  qed
  ultimately show ?thesis by simp
qed

text \<open>
  C2.  For every successful injection of a file of \<open>N\<close> bytes into a valid image: the
  written image holds, at the reported inode number, a finalized inode with regular-file
  mode, link count 1, size \<open>N\<close>, three equal timestamps, and direct pointers that are the
  allocated data blocks in allocation order followed by zeros; the first entry with inode
  number 0 at an index from 2 of the root directory's block holds the finalized entry with
  that inode number, type "file" and the display name; and the root inode has one more
  link (in \<open>uint16_t\<close>), a size grown by 64, and a finalized checksum.
\<close>

theorem injection_adds_file:
  assumes run: "mkfs_adder argv now adjacent fs = (Inr num, fs')"
    and args: "parse_cli_args_adder argv = Inr args"
    and img: "fs (the (input_image args)) = Some img"
    and content: "fs (the (filename args)) = Some content"
    and v: "valid_image img"
  shows "\<exists>out bits idx. fs' (the (output_image args)) = Some out
    \<and> 2 \<le> unat num \<and> unat num \<le> unat (superblock_t.inode_count (image_superblock img))
    \<and> \<not> bitmap_bit (image_inode_bitmap img) (unat num - 1)
    \<and> bitmap_bit (image_inode_bitmap out) (unat num - 1)
    \<and> length bits = (length content + BS - 1) div BS \<and> distinct bits
    \<and> (\<forall>b \<in> set bits. b < unat (superblock_t.data_region_blocks (image_superblock img))
           \<and> \<not> bitmap_bit (image_data_bitmap img) b \<and> bitmap_bit (image_data_bitmap out) b)
    \<and> image_inode out (unat num)
        = inode_crc_finalize
            \<lparr> mode = MODE_FILE, links = 1, uid = 0, gid = 0,
              size_bytes = of_nat (length content), atime = now, mtime = now, ctime = now,
              direct = map (\<lambda>b. of_nat
                          (unat (superblock_t.data_region_start (image_superblock img)) + b)) bits
                       @ replicate (DIRECT_MAX - length bits) 0,
              reserved_0 = 0, reserved_1 = 0, reserved_2 = 0, proj_id = PROJ_ID,
              uid16_gid16 = 0, xattr_ptr = 0, inode_crc = 0 \<rparr>
    \<and> 2 \<le> idx \<and> idx < BS div dirent_size
    \<and> inode_no (image_dir_entry img idx) = 0
    \<and> (\<forall>i. 2 \<le> i \<and> i < idx \<longrightarrow> inode_no (image_dir_entry img i) \<noteq> 0)
    \<and> image_dir_entry out idx
        = dirent_checksum_finalize
            \<lparr> inode_no = num, type = FILE_TYPE_REGULAR,
              name = c_bytes (extract_filename (the (filename args)))
                     @ replicate (58 - length (extract_filename (the (filename args)))) 0,
              checksum = 0 \<rparr>
    \<and> links (image_inode out 1) = links (image_inode img 1) + 1
    \<and> size_bytes (image_inode out 1) = size_bytes (image_inode img 1) + of_nat dirent_size
    \<and> inode_crc_finalize (image_inode out 1) = image_inode out 1"
proof -
  define nm where "nm = extract_filename (the (filename args))"
  define sb where "sb = image_superblock img"
  from mkfs_adder_run [OF run args img] content obtain out where
    c: "content \<noteq> []" "length content \<le> DIRECT_MAX * BS"
    and a: "add_file img content nm now adjacent = Inr (out, num)"
    and fs': "fs' = fs(the (output_image args) \<mapsto> out)"
    unfolding nm_def by auto
  from add_file_result [OF v a c, folded sb_def] obtain ibit bits idx where
    unum: "unat num = ibit + 1"
    and ib: "1 \<le> ibit" "ibit < unat (superblock_t.inode_count sb)"
      "\<not> bitmap_bit (image_inode_bitmap img) ibit"
    and bits: "length bits = (length content + BS - 1) div BS" "distinct bits"
      "\<forall>b \<in> set bits. b < unat (superblock_t.data_region_blocks sb)
           \<and> \<not> bitmap_bit (image_data_bitmap img) b \<and> b \<noteq> image_root_dir_block img"
    and idx: "2 \<le> idx" "idx < BS div dirent_size" "inode_no (image_dir_entry img idx) = 0"
      "\<forall>i. 2 \<le> i \<and> i < idx \<longrightarrow> inode_no (image_dir_entry img i) \<noteq> 0"
    and ibm: "\<forall>i. bitmap_bit (image_inode_bitmap out) i
           \<longleftrightarrow> bitmap_bit (image_inode_bitmap img) i \<or> i = ibit"
    and dbm: "\<forall>i. bitmap_bit (image_data_bitmap out) i
           \<longleftrightarrow> bitmap_bit (image_data_bitmap img) i \<or> i \<in> set bits"
    and root: "image_inode_bytes out 1
        = inode_bytes (inode_crc_finalize
            ((inode_crc_finalize ((image_inode img 1)
                \<lparr>links := links (image_inode img 1) + 1, mtime := now\<rparr>))
              \<lparr>size_bytes := size_bytes (image_inode img 1) + of_nat dirent_size\<rparr>))"
    and new: "image_inode_bytes out (ibit + 1)
        = inode_bytes (new_file_inode (of_nat (length content))
            (map (\<lambda>b. ucast (superblock_t.data_region_start sb) + of_nat b) bits) now)"
    and de: "image_dir_entry_bytes out idx = dirent_bytes (new_dir_entry num nm)"
    by (elim exE conjE) (rule that; assumption)
  have o1: "fs' (the (output_image args)) = Some out" by (simp add: fs')
  have o2: "2 \<le> unat num" "unat num \<le> unat (superblock_t.inode_count sb)"
    "\<not> bitmap_bit (image_inode_bitmap img) (unat num - 1)"
    "bitmap_bit (image_inode_bitmap out) (unat num - 1)"
    using unum ib ibm by simp_all
  have o3: "\<forall>b \<in> set bits. b < unat (superblock_t.data_region_blocks sb)
           \<and> \<not> bitmap_bit (image_data_bitmap img) b \<and> bitmap_bit (image_data_bitmap out) b"
    using bits(3) dbm by blast
  have bn: "length bits \<le> DIRECT_MAX"
  proof -
    have "(length content + BS - 1) div BS \<le> (DIRECT_MAX * BS + BS - 1) div BS"
      using c(2) by (intro div_le_mono) simp
    also have "\<dots> = DIRECT_MAX" by (simp add: BS_def DIRECT_MAX_def)
    finally show ?thesis using bits(1) by simp
  qed
  have ptrs: "map (\<lambda>b. ucast (superblock_t.data_region_start sb) + (of_nat b :: 32 word)) bits
     = map (\<lambda>b. of_nat (unat (superblock_t.data_region_start sb) + b)) bits"
    by simp
  have fx: "fixed DIRECT_MAX (map (\<lambda>b. of_nat (unat (superblock_t.data_region_start sb) + b) :: 32 word) bits)
     = map (\<lambda>b. of_nat (unat (superblock_t.data_region_start sb) + b)) bits
       @ replicate (DIRECT_MAX - length bits) 0"
    using bn by (simp add: fixed_def)
  have o4: "image_inode out (unat num)
        = inode_crc_finalize
            \<lparr> mode = MODE_FILE, links = 1, uid = 0, gid = 0,
              size_bytes = of_nat (length content), atime = now, mtime = now, ctime = now,
              direct = map (\<lambda>b. of_nat (unat (superblock_t.data_region_start sb) + b)) bits
                       @ replicate (DIRECT_MAX - length bits) 0,
              reserved_0 = 0, reserved_1 = 0, reserved_2 = 0, proj_id = PROJ_ID,
              uid16_gid16 = 0, xattr_ptr = 0, inode_crc = 0 \<rparr>"
  proof -
    have "image_inode out (unat num)
       = new_file_inode (of_nat (length content))
            (map (\<lambda>b. ucast (superblock_t.data_region_start sb) + of_nat b) bits) now"
      unfolding image_inode_def unum new
      by (rule inode_of_bytes_bytes) (simp add: new_file_inode_def DIRECT_MAX_def)
    then show ?thesis
      unfolding ptrs new_file_inode_def fx .
  qed
  have nml: "length nm \<le> 57"
    using parse_cli_args_adder_Inr(4) [OF args] by (simp add: nm_def)
  have o5: "image_dir_entry out idx
        = dirent_checksum_finalize
            \<lparr> inode_no = num, type = FILE_TYPE_REGULAR,
              name = c_bytes nm @ replicate (58 - length nm) 0, checksum = 0 \<rparr>"
  proof -
    have "image_dir_entry out idx = new_dir_entry num nm"
      unfolding image_dir_entry_def de
      by (rule dirent_of_bytes_bytes)
         (simp add: new_dir_entry_def dirent_checksum_finalize_def Let_def)
    then show ?thesis
      unfolding new_dir_entry_def fixed_name [OF nml] .
  qed
  define rootB where "rootB = inode_crc_finalize
            ((inode_crc_finalize ((image_inode img 1)
                \<lparr>links := links (image_inode img 1) + 1, mtime := now\<rparr>))
              \<lparr>size_bytes := size_bytes (image_inode img 1) + of_nat dirent_size\<rparr>)"
  have r: "image_inode out 1 = rootB"
    unfolding image_inode_def [of out] root rootB_def [symmetric]
    by (rule inode_of_bytes_bytes) (simp add: rootB_def image_inode_def)
  have o6: "links (image_inode out 1) = links (image_inode img 1) + 1"
    "size_bytes (image_inode out 1) = size_bytes (image_inode img 1) + of_nat dirent_size"
    unfolding r by (simp_all add: rootB_def inode_crc_finalize_def Let_def)
  have o7: "inode_crc_finalize (image_inode out 1) = image_inode out 1"
    unfolding r rootB_def by (rule inode_crc_finalize_idem)
  note F = o1 o2 bits(1,2) o3 o4 idx o5 o6 o7
  note G = F [unfolded sb_def nm_def]
  show ?thesis
    apply (rule exI [of _ out], rule exI [of _ bits], rule exI [of _ idx])
    apply (intro conjI)
                   apply (rule G(1))
                  apply (rule G(2))
                 apply (rule G(3))
                apply (rule G(4))
               apply (rule G(5))
              apply (rule G(6))
             apply (rule G(7))
            apply (rule G(8))
           apply (rule G(9))
          apply (rule G(10))
         apply (rule G(11))
        apply (rule G(12))
       apply (rule G(13))
      apply (rule G(14))
     apply (rule G(15))
    apply (rule G(16))
    apply (rule G(17))
    done
qed


end
